theory Spec2Isabelle
  imports Complex_Main "HOL-Library.Word"
begin

section \<open>The PHOS digitizer: data\<close>

text \<open>
  The development embeds \<^verbatim>\<open>AliPHOSDigitizer::Digitize\<close> and
  \<^verbatim>\<open>AliPHOSDigitizer::FrontEdgeTime\<close> of
  \<^verbatim>\<open>PHOS/AliPHOSDigitizer.cxx\<close>, from the point where the summable digits of
  every input have been collected in \<^verbatim>\<open>sdigArray\<close> (line 203) to the end of the
  function. Amplitudes, times, noise samples and thresholds are read as real numbers
  (the rounding of \<^verbatim>\<open>Float_t\<close> is not modelled); channel identifiers are
  integers; primary (origin) identifiers are 32-bit machine integers, because the code
  multiplies and adds them.
\<close>

text \<open>
  Modelled from the spec: the class \<^verbatim>\<open>AliPHOSDigit\<close> is used by the digitizer but
  its declaration is not part of the sources. The record follows the Digit of the data
  model: channel identifier, amplitude, time, provenance list of (origin identifier,
  weight) pairs, and the index in the final list.
\<close>

record AliPHOSDigit =
  fId :: int
  fAmp :: real
  fTime :: real
  fPrimary :: "(32 word \<times> real) list"
  fIndexInList :: int

text \<open>
  Modelled from the spec: the constructor call
  \<^verbatim>\<open>AliPHOSDigit(-1, absID, amp, time)\<close> makes a digit without provenance and
  without a list index.
\<close>

definition newDigit :: "int \<Rightarrow> real \<Rightarrow> real \<Rightarrow> AliPHOSDigit" where
  "newDigit absID amp time =
     \<lparr>fId = absID, fAmp = amp, fTime = time, fPrimary = [], fIndexInList = - 1\<rparr>"

text \<open>
  Modelled from the spec: \<^verbatim>\<open>ShiftPrimary\<close> adds the offset of the source to every
  origin identifier of the record.
\<close>

definition ShiftPrimary :: "32 word \<Rightarrow> AliPHOSDigit \<Rightarrow> AliPHOSDigit" where
  "ShiftPrimary shift d = d\<lparr>fPrimary := map (\<lambda>(p, w). (p + shift, w)) (fPrimary d)\<rparr>"

text \<open>
  Modelled from the spec: \<^verbatim>\<open>operator+\<close> of \<^verbatim>\<open>AliPHOSDigit\<close> folds the
  amplitude of the right operand into the left one and appends its provenance. The spec
  names no other effect: the channel identifier, the time and the list index of the left
  operand stay as they are.
\<close>

definition digit_plus :: "AliPHOSDigit \<Rightarrow> AliPHOSDigit \<Rightarrow> AliPHOSDigit" where
  "digit_plus a b = a\<lparr>fAmp := fAmp a + fAmp b, fPrimary := fPrimary a @ fPrimary b\<rparr>"

text \<open>The geometry numbers that \<^verbatim>\<open>Digitize\<close> reads (lines 168 to 175).\<close>

record AliPHOSGeometry =
  NModules :: nat
  NPhi :: nat
  NZ :: nat
  NumberOfCPVPadsZ :: nat
  NumberOfCPVPadsPhi :: nat

definition nEMC_of :: "AliPHOSGeometry \<Rightarrow> nat" where
  "nEMC_of geom = NModules geom * NPhi geom * NZ geom"

definition nCPV_of :: "AliPHOSGeometry \<Rightarrow> nat" where
  "nCPV_of geom =
     nEMC_of geom + NumberOfCPVPadsZ geom * NumberOfCPVPadsPhi geom * NModules geom"

text \<open>
  The data members of the digitizer that \<^verbatim>\<open>Digitize\<close> reads. \<^verbatim>\<open>fARD\<close> is
  the run digitizer, present or absent; of it only \<^verbatim>\<open>GetMask\<close> is used.
\<close>

record AliPHOSDigitizer =
  fPinNoise :: real
  fEMCDigitThreshold :: real
  fCPVNoise :: real
  fCPVDigitThreshold :: real
  fARD :: "(nat \<Rightarrow> 32 word) option"

text \<open>The values set by the constructors (lines 88 to 96, stand-alone mode).\<close>

definition AliPHOSDigitizer_ctor :: AliPHOSDigitizer where
  "AliPHOSDigitizer_ctor =
     \<lparr>fPinNoise = 1 / 100, fEMCDigitThreshold = 1 / 100, fCPVNoise = 1 / 100,
      fCPVDigitThreshold = 9 / 100, fARD = None\<rparr>"

text \<open>
  The collaborators: the geometry, the random generator (\<open>Gaus n sigma\<close> is the sample
  that the call \<^verbatim>\<open>gRandom->Gaus(0., sigma)\<close> returns for channel \<open>n\<close>; the code
  draws exactly one sample per channel, in channel order) and the two conversions of the
  \<^verbatim>\<open>AliPHOSSDigitizer\<close>, which is not part of the sources and is taken as a
  parameter.
\<close>

record Collaborators =
  PHOSGeometry :: AliPHOSGeometry
  Gaus :: "nat \<Rightarrow> real \<Rightarrow> real"
  sDigitize :: "real \<Rightarrow> real"
  Calibrate :: "real \<Rightarrow> real"

text \<open>
  The two ways in which a run can go wrong are values of the model: the dereference of a
  null pointer, and an access outside allocated storage, which is either a read of a slot
  that a \<^verbatim>\<open>TArrayF\<close> does not have or an access to an object behind the one
  that a pointer points to. The model stops at such an access and does not say what the
  access would give.
\<close>

datatype fault = NullPointer | OutOfBounds

text \<open>
  \<^verbatim>\<open>TClonesArray::At\<close>: the object in the slot, or the null pointer for a slot that
  holds nothing. A list of summable digits is the filled part of such an array; the array
  of digits is a list of slots.
\<close>

definition At :: "'a list \<Rightarrow> nat \<Rightarrow> 'a option" where
  "At arr k = (if k < length arr then Some (arr ! k) else None)"

definition AtSlot :: "'a option list \<Rightarrow> nat \<Rightarrow> 'a option" where
  "AtSlot arr k = (if k < length arr then arr ! k else None)"

text \<open>
  \<^verbatim>\<open>TArrayF\<close> is the array of floats of the ROOT library; a value of it is the
  list of its slots. \<^verbatim>\<open>TArrayF::At\<close> reads a slot.
\<close>

definition TArrayF_At :: "real list \<Rightarrow> nat \<Rightarrow> fault + real" where
  "TArrayF_At arr k = (if k < length arr then Inr (arr ! k) else Inl OutOfBounds)"

text \<open>
  The constructor \<^verbatim>\<open>TArrayF(Int_t n)\<close> makes an array of \<open>n\<close> slots that all
  hold zero, and an array without slots when \<open>n\<close> is not positive.
\<close>

definition TArrayF_ctor :: "int \<Rightarrow> real list" where
  "TArrayF_ctor n = replicate (nat n) 0"

text \<open>
  The conversion of a \<^verbatim>\<open>Float_t\<close> to \<^verbatim>\<open>Int_t\<close> drops the fraction
  (values outside the range of \<^verbatim>\<open>Int_t\<close> are not modelled).
\<close>

definition Int_t_of :: "real \<Rightarrow> int" where
  "Int_t_of v = (if 0 \<le> v then \<lfloor>v\<rfloor> else \<lceil>v\<rceil>)"

text \<open>
  Lines 229, 230, 245 and 246: \<^verbatim>\<open>energies[contrib] = v\<close> and
  \<^verbatim>\<open>times[contrib] = v\<close>. The variables \<^verbatim>\<open>energies\<close> and
  \<^verbatim>\<open>times\<close> are pointers to one \<^verbatim>\<open>TArrayF\<close> each (lines 212 and 213),
  so the subscript is applied to the pointer and names the array object at offset
  \<open>contrib\<close> from it, not a slot of the array. With \<open>contrib = 0\<close> this is the array
  itself: the float \<open>v\<close> is converted through the constructor
  \<^verbatim>\<open>TArrayF(Int_t)\<close> and the array is replaced by a copy of the new one,
  \<open>(Int_t) v\<close> slots that hold zero. With \<open>contrib \<ge> 1\<close> the object lies behind the
  one that was allocated. The result is the new value of the array.
\<close>

definition TArrayF_assign :: "nat \<Rightarrow> real \<Rightarrow> fault + real list" where
  "TArrayF_assign contrib v =
     (if contrib = 0 then Inr (TArrayF_ctor (Int_t_of v)) else Inl OutOfBounds)"

definition TimeOfNoise :: real where
  "TimeOfNoise = 1"

section \<open>The merge\<close>

text \<open>Lines 203 to 210: the first channel with signal.\<close>

fun firstSig :: "AliPHOSDigit list list \<Rightarrow> int \<Rightarrow> fault + int" where
  "firstSig [] nextSig = Inr nextSig"
| "firstSig (sdigits # rest) nextSig =
     (case At sdigits 0 of
        None \<Rightarrow> Inl NullPointer
      | Some d \<Rightarrow> firstSig rest (if fId d < nextSig then fId d else nextSig))"

text \<open>
  Lines 258 to 263 and 296 to 301: the rescan of all inputs at their cursors. The second
  argument is the array \<^verbatim>\<open>index\<close>, one cursor per input.
\<close>

fun findNextSig :: "AliPHOSDigit list list \<Rightarrow> nat list \<Rightarrow> int \<Rightarrow> fault + int" where
  "findNextSig (sdigits # rest) (k # ks) nextSig =
     (case At sdigits k of
        None \<Rightarrow> Inl NullPointer
      | Some d \<Rightarrow> findNextSig rest ks (if fId d < nextSig then fId d else nextSig))"
| "findNextSig _ _ nextSig = Inr nextSig"

text \<open>Lines 238 to 241: the offset of the primaries of input \<open>i\<close>.\<close>

definition primaryoffset :: "(nat \<Rightarrow> 32 word) option \<Rightarrow> nat \<Rightarrow> 32 word" where
  "primaryoffset ard i =
     (case ard of Some GetMask \<Rightarrow> GetMask i | None \<Rightarrow> 10000000 * of_nat i)"

text \<open>
  Lines 235 to 250: the inner loop over the records of one input that sit on channel
  \<open>absID\<close>. The third argument is the unread part of the input (from its cursor on); the
  state is the digit, the two scratch arrays, \<^verbatim>\<open>contrib\<close> and the cursor. The loop
  ends at the first record of another channel, or when the input is exhausted
  (\<^verbatim>\<open>curSDigit\<close> is null). Lines 245 and 246 assign the amplitude and the time
  of the record through the two pointers. \<^verbatim>\<open>ShiftPrimary\<close> changes the record inside its
  input; the record lies behind the cursor from then on and is not read again, so the
  model shifts a copy and leaves the inputs as they are.
\<close>

fun drainEMC ::
  "int \<Rightarrow> 32 word \<Rightarrow> AliPHOSDigit list \<Rightarrow>
   AliPHOSDigit \<times> real list \<times> real list \<times> nat \<times> nat \<Rightarrow>
   fault + (AliPHOSDigit \<times> real list \<times> real list \<times> nat \<times> nat)" where
  "drainEMC absID shift [] acc = Inr acc"
| "drainEMC absID shift (curSDigit # unread) (digit, energies, tms, contrib, k) =
     (if fId curSDigit = absID then
        (case TArrayF_assign contrib (fAmp curSDigit) of
           Inl e \<Rightarrow> Inl e
         | Inr energies' \<Rightarrow>
             (case TArrayF_assign contrib (fTime curSDigit) of
                Inl e \<Rightarrow> Inl e
              | Inr tms' \<Rightarrow>
                  drainEMC absID shift unread
                    (digit_plus digit (ShiftPrimary shift curSDigit),
                     energies', tms', Suc contrib, Suc k)))
      else Inr (digit, energies, tms, contrib, k))"

text \<open>Lines 232 to 251: the loop over the inputs, input \<open>i\<close> first.\<close>

fun addInputsEMC ::
  "int \<Rightarrow> (nat \<Rightarrow> 32 word) \<Rightarrow> nat \<Rightarrow> AliPHOSDigit list list \<Rightarrow> nat list \<Rightarrow>
   AliPHOSDigit \<times> real list \<times> real list \<times> nat \<Rightarrow>
   fault + ((AliPHOSDigit \<times> real list \<times> real list \<times> nat) \<times> nat list)" where
  "addInputsEMC absID offs i (sdigits # rest) (k # ks) (digit, energies, tms, contrib) =
     (case drainEMC absID (offs i) (drop k sdigits) (digit, energies, tms, contrib, k) of
        Inl e \<Rightarrow> Inl e
      | Inr (digit', energies', tms', contrib', k') \<Rightarrow>
          (case addInputsEMC absID offs (Suc i) rest ks (digit', energies', tms', contrib') of
             Inl e \<Rightarrow> Inl e
           | Inr (acc, ks') \<Rightarrow> Inr (acc, k' # ks')))"
| "addInputsEMC absID offs i _ _ acc = Inr (acc, [])"

text \<open>
  Lines 433 to 444: \<^verbatim>\<open>FrontEdgeTime\<close>. The loop runs while the time just read
  is not zero, and reads the next slot of \<^verbatim>\<open>times\<close>.
\<close>

function FrontEdgeTime_loop :: "real list \<Rightarrow> real \<Rightarrow> real \<Rightarrow> nat \<Rightarrow> fault + real" where
  "FrontEdgeTime_loop tms curtime time i =
     (if curtime \<noteq> 0 then
        (if i < length tms
         then FrontEdgeTime_loop tms (tms ! i)
                (if time > curtime then curtime else time) (Suc i)
         else Inl OutOfBounds)
      else Inr time)"
  by pat_completeness auto

termination
  by (relation "measure (\<lambda>(tms, curtime, time, i). length tms - i)") auto

definition FrontEdgeTime :: "real list \<Rightarrow> real list \<Rightarrow> fault + real" where
  "FrontEdgeTime energies tms =
     (case TArrayF_At tms 0 of
        Inl e \<Rightarrow> Inl e
      | Inr curtime \<Rightarrow> FrontEdgeTime_loop tms curtime curtime 1)"

text \<open>
  Lines 280 to 293: the inner loop of the CPV part. It adds the record to the digit and
  moves the cursor; the scratch arrays are not used (``no timing'').
\<close>

fun drainCPV ::
  "int \<Rightarrow> 32 word \<Rightarrow> AliPHOSDigit list \<Rightarrow> AliPHOSDigit \<times> nat \<Rightarrow> AliPHOSDigit \<times> nat" where
  "drainCPV absID shift [] acc = acc"
| "drainCPV absID shift (curSDigit # unread) (digit, k) =
     (if fId curSDigit = absID
      then drainCPV absID shift unread (digit_plus digit (ShiftPrimary shift curSDigit), Suc k)
      else (digit, k))"

text \<open>Lines 277 to 294: the loop over the inputs of the CPV part.\<close>

fun addInputsCPV ::
  "int \<Rightarrow> (nat \<Rightarrow> 32 word) \<Rightarrow> nat \<Rightarrow> AliPHOSDigit list list \<Rightarrow> nat list \<Rightarrow>
   AliPHOSDigit \<Rightarrow> AliPHOSDigit \<times> nat list" where
  "addInputsCPV absID offs i (sdigits # rest) (k # ks) digit =
     (case drainCPV absID (offs i) (drop k sdigits) (digit, k) of
        (digit', k') \<Rightarrow>
          (case addInputsCPV absID offs (Suc i) rest ks digit' of
             (digit'', ks') \<Rightarrow> (digit'', k' # ks')))"
| "addInputsCPV absID offs i _ _ digit = (digit, [])"

text \<open>
  The variables that live across the two channel loops: the array of digits (one slot per
  channel, slot \<open>absID - 1\<close> for channel \<open>absID\<close>), the cursors, \<^verbatim>\<open>nextSig\<close> and
  the two scratch arrays.
\<close>

record MergeState =
  digits :: "AliPHOSDigit option list"
  index :: "nat list"
  nextSig :: int
  energies :: "real list"
  tms :: "real list"

text \<open>\<^verbatim>\<open>TArrayF::Reset\<close> sets every slot to zero.\<close>

definition Reset :: "real list \<Rightarrow> real list" where
  "Reset arr = replicate (length arr) 0"

text \<open>
  Lines 222 to 264: the body of the EMC loop for channel \<open>absID\<close>. The pointer
  \<^verbatim>\<open>digit\<close> is the digit that has just been put into slot \<open>absID - 1\<close>; the model
  works on its value and writes it back. Lines 229 and 230 assign the amplitude and the
  time of the noise digit through the two pointers, at offset 0.
\<close>

definition emcChannel ::
  "AliPHOSDigitizer \<Rightarrow> Collaborators \<Rightarrow> AliPHOSDigit list list \<Rightarrow> nat \<Rightarrow> MergeState \<Rightarrow>
   fault + MergeState" where
  "emcChannel this gime sdigArray absID st =
     (let noise = Gaus gime absID (fPinNoise this);
          digit = newDigit (int absID) (sDigitize gime noise) TimeOfNoise;
          st1 = st\<lparr>digits := (digits st)[absID - 1 := Some digit]\<rparr>
      in if int absID = nextSig st then
           (case TArrayF_assign 0 (fAmp digit) of
              Inl e \<Rightarrow> Inl e
            | Inr energies0 \<Rightarrow>
           (case TArrayF_assign 0 (fTime digit) of
              Inl e \<Rightarrow> Inl e
            | Inr tms0 \<Rightarrow>
           (case addInputsEMC (int absID) (primaryoffset (fARD this)) 0 sdigArray (index st)
                   (digit, energies0, tms0, 0) of
              Inl e \<Rightarrow> Inl e
            | Inr ((digit', energies', tms', contrib), index') \<Rightarrow>
           (case FrontEdgeTime energies' tms' of
              Inl e \<Rightarrow> Inl e
            | Inr time \<Rightarrow>
           (case findNextSig sdigArray index' (nextSig st) of
              Inl e \<Rightarrow> Inl e
            | Inr nextSig' \<Rightarrow>
                Inr \<lparr>digits = (digits st)[absID - 1 := Some (digit'\<lparr>fTime := time\<rparr>)],
                     index = index', nextSig = nextSig',
                     energies = Reset energies', tms = Reset tms'\<rparr>)))))
         else Inr st1)"

text \<open>Lines 271 to 303: the body of the CPV loop for channel \<open>absID\<close>.\<close>

definition cpvChannel ::
  "AliPHOSDigitizer \<Rightarrow> Collaborators \<Rightarrow> AliPHOSDigit list list \<Rightarrow> nat \<Rightarrow> MergeState \<Rightarrow>
   fault + MergeState" where
  "cpvChannel this gime sdigArray absID st =
     (let noise = Gaus gime absID (fCPVNoise this);
          digit = newDigit (int absID) (sDigitize gime noise) TimeOfNoise;
          st1 = st\<lparr>digits := (digits st)[absID - 1 := Some digit]\<rparr>
      in if int absID = nextSig st then
           (case addInputsCPV (int absID) (primaryoffset (fARD this)) 0 sdigArray (index st)
                   digit of
              (digit', index') \<Rightarrow>
           (case findNextSig sdigArray index' (nextSig st) of
              Inl e \<Rightarrow> Inl e
            | Inr nextSig' \<Rightarrow>
                Inr (st\<lparr>digits := (digits st)[absID - 1 := Some digit'],
                        index := index', nextSig := nextSig'\<rparr>)))
         else Inr st1)"

text \<open>
  The two \<^verbatim>\<open>for\<close> loops over the channels (lines 221 and 270), given the list of
  the channels they visit. A fault ends the run.
\<close>

fun channelLoop ::
  "(nat \<Rightarrow> MergeState \<Rightarrow> fault + MergeState) \<Rightarrow> nat list \<Rightarrow> MergeState \<Rightarrow>
   fault + MergeState" where
  "channelLoop body [] st = Inr st"
| "channelLoop body (absID # rest) st =
     (case body absID st of Inl e \<Rightarrow> Inl e | Inr st' \<Rightarrow> channelLoop body rest st')"

section \<open>Thresholds and compaction\<close>

text \<open>
  Lines 312 to 318: one \<^verbatim>\<open>for\<close> loop that removes the digits below a threshold,
  over the given slots. \<^verbatim>\<open>RemoveAt\<close> empties the slot.
\<close>

fun removeBelow ::
  "(real \<Rightarrow> real) \<Rightarrow> real \<Rightarrow> nat list \<Rightarrow> AliPHOSDigit option list \<Rightarrow>
   fault + AliPHOSDigit option list" where
  "removeBelow calibrate threshold [] ds = Inr ds"
| "removeBelow calibrate threshold (absID # rest) ds =
     (case AtSlot ds absID of
        None \<Rightarrow> Inl NullPointer
      | Some d \<Rightarrow>
          removeBelow calibrate threshold rest
            (if calibrate (fAmp d) < threshold then ds[absID := None] else ds))"

text \<open>
  Lines 320 to 323: \<^verbatim>\<open>Compress\<close> moves the objects to the front, in their order;
  \<^verbatim>\<open>Expand(ndigits)\<close> then cuts the array to them. The result is the list of the
  objects that are left.
\<close>

fun Compress :: "'a option list \<Rightarrow> 'a list" where
  "Compress [] = []"
| "Compress (None # ds) = Compress ds"
| "Compress (Some d # ds) = d # Compress ds"

text \<open>Lines 326 to 329: the digit at position \<open>i\<close> gets the index \<open>i\<close>.\<close>

fun setIndexes :: "nat \<Rightarrow> AliPHOSDigit list \<Rightarrow> AliPHOSDigit list" where
  "setIndexes i [] = []"
| "setIndexes i (digit # rest) = digit\<lparr>fIndexInList := int i\<rparr> # setIndexes (Suc i) rest"

section \<open>The whole function\<close>

definition initialState :: "nat \<Rightarrow> nat \<Rightarrow> int \<Rightarrow> MergeState" where
  "initialState nCPV input nextSig0 =
     \<lparr>digits = replicate nCPV None, index = replicate input 0, nextSig = nextSig0,
      energies = replicate input 0, tms = replicate input 0\<rparr>"

text \<open>
  Lines 203 to 304: the merge, from the search of the first channel with signal to the
  end of the CPV loop. The EMC loop visits the channels \<open>1\<close> to \<open>nEMC\<close>, the CPV loop
  the channels \<open>nEMC + 1\<close> to \<open>nCPV\<close>.
\<close>

definition merge ::
  "AliPHOSDigitizer \<Rightarrow> Collaborators \<Rightarrow> AliPHOSDigit list list \<Rightarrow> fault + MergeState" where
  "merge this gime sdigArray =
     (let nEMC = nEMC_of (PHOSGeometry gime);
          nCPV = nCPV_of (PHOSGeometry gime);
          input = length sdigArray
      in case firstSig sdigArray 200000 of
           Inl e \<Rightarrow> Inl e
         | Inr nextSig0 \<Rightarrow>
        (case channelLoop (emcChannel this gime sdigArray) [1..<Suc nEMC]
                (initialState nCPV input nextSig0) of
           Inl e \<Rightarrow> Inl e
         | Inr st \<Rightarrow> channelLoop (cpvChannel this gime sdigArray) [Suc nEMC..<Suc nCPV] st))"

text \<open>Lines 311 to 329: the thresholds, the compaction and the indexes.\<close>

definition compactDigits ::
  "AliPHOSDigitizer \<Rightarrow> Collaborators \<Rightarrow> AliPHOSDigit option list \<Rightarrow>
   fault + AliPHOSDigit list" where
  "compactDigits this gime ds =
     (let nEMC = nEMC_of (PHOSGeometry gime);
          nCPV = nCPV_of (PHOSGeometry gime)
      in case removeBelow (Calibrate gime) (fEMCDigitThreshold this) [0..<nEMC] ds of
           Inl e \<Rightarrow> Inl e
         | Inr ds' \<Rightarrow>
        (case removeBelow (Calibrate gime) (fCPVDigitThreshold this) [nEMC..<nCPV] ds' of
           Inl e \<Rightarrow> Inl e
         | Inr ds'' \<Rightarrow> Inr (setIndexes 0 (Compress ds''))))"

definition Digitize ::
  "AliPHOSDigitizer \<Rightarrow> Collaborators \<Rightarrow> AliPHOSDigit list list \<Rightarrow>
   fault + AliPHOSDigit list" where
  "Digitize this gime sdigArray =
     (case merge this gime sdigArray of
        Inl e \<Rightarrow> Inl e
      | Inr st \<Rightarrow> compactDigits this gime (digits st))"

section \<open>Notions used in the statements\<close>

text \<open>The channel identifiers held by the slots of the array of digits.\<close>

definition slotIds :: "AliPHOSDigit option list \<Rightarrow> int option list" where
  "slotIds ds = map (map_option fId) ds"

definition fillSlot :: "nat \<Rightarrow> int option list \<Rightarrow> int option list" where
  "fillSlot absID ids = ids[absID - 1 := Some (int absID)]"

text \<open>A slot whose digit is under the threshold after calibration.\<close>

definition below :: "(real \<Rightarrow> real) \<Rightarrow> real \<Rightarrow> AliPHOSDigit option \<Rightarrow> bool" where
  "below calibrate threshold slot =
     (case slot of None \<Rightarrow> False | Some d \<Rightarrow> calibrate (fAmp d) < threshold)"

text \<open>
  The threshold of the class of a channel, as lines 312 to 318 apply it: the channels up
  to \<open>nEMC\<close> are EMC channels, the others CPV channels.
\<close>

definition classThreshold :: "AliPHOSDigitizer \<Rightarrow> Collaborators \<Rightarrow> int \<Rightarrow> real" where
  "classThreshold this gime absID =
     (if absID \<le> int (nEMC_of (PHOSGeometry gime)) then fEMCDigitThreshold this
      else fCPVDigitThreshold this)"

text \<open>The digit of channel \<open>absID\<close> as the merge leaves it, before the thresholds.\<close>

definition mergedDigit ::
  "AliPHOSDigitizer \<Rightarrow> Collaborators \<Rightarrow> AliPHOSDigit list list \<Rightarrow> nat \<Rightarrow>
   fault + AliPHOSDigit option" where
  "mergedDigit this gime sdigArray absID =
     (case merge this gime sdigArray of
        Inl e \<Rightarrow> Inl e
      | Inr st \<Rightarrow> Inr (AtSlot (digits st) (absID - 1)))"

text \<open>
  The digit that lines 223 and 272 put into the slot of channel \<open>n\<close> before any signal
  is added: the noise sample of the class of the channel, at the time of the noise.
\<close>

definition noiseDigit :: "AliPHOSDigitizer \<Rightarrow> Collaborators \<Rightarrow> nat \<Rightarrow> AliPHOSDigit" where
  "noiseDigit this gime n =
     newDigit (int n)
       (sDigitize gime (Gaus gime n
          (if n \<le> nEMC_of (PHOSGeometry gime) then fPinNoise this else fCPVNoise this)))
       TimeOfNoise"

text \<open>
  The body that the two channel loops run for channel \<open>absID\<close>: the body of the EMC
  loop for the channels up to \<open>nEMC\<close>, the body of the CPV loop above.
\<close>

definition channelBody ::
  "AliPHOSDigitizer \<Rightarrow> Collaborators \<Rightarrow> AliPHOSDigit list list \<Rightarrow> nat \<Rightarrow> MergeState \<Rightarrow>
   fault + MergeState" where
  "channelBody this gime sdigArray absID =
     (if absID \<le> nEMC_of (PHOSGeometry gime) then emcChannel this gime sdigArray absID
      else cpvChannel this gime sdigArray absID)"

text \<open>All records of all inputs for a channel.\<close>

definition recordsOn :: "int \<Rightarrow> AliPHOSDigit list list \<Rightarrow> AliPHOSDigit list" where
  "recordsOn absID sdigArray = filter (\<lambda>d. fId d = absID) (concat sdigArray)"




section \<open>Concrete inputs\<close>

text \<open>
  Geometries: the EMC channels 1 to 4 with the CPV channels 5 and 6; the EMC channels 1 to
  4 with the CPV channels 5 to 8; the EMC channels 1 to 12 without CPV. Collaborators with
  the noise fixed at 0 and conversions that leave the amplitude as it is. A summable digit
  with one primary of weight 1.
\<close>

definition geometry46 :: AliPHOSGeometry where
  "geometry46 =
     \<lparr>NModules = 1, NPhi = 2, NZ = 2, NumberOfCPVPadsZ = 2, NumberOfCPVPadsPhi = 1\<rparr>"

definition geometry48 :: AliPHOSGeometry where
  "geometry48 =
     \<lparr>NModules = 1, NPhi = 2, NZ = 2, NumberOfCPVPadsZ = 2, NumberOfCPVPadsPhi = 2\<rparr>"

definition geometry12 :: AliPHOSGeometry where
  "geometry12 =
     \<lparr>NModules = 1, NPhi = 3, NZ = 4, NumberOfCPVPadsZ = 0, NumberOfCPVPadsPhi = 0\<rparr>"

definition quiet :: "AliPHOSGeometry \<Rightarrow> Collaborators" where
  "quiet geom =
     \<lparr>PHOSGeometry = geom, Gaus = (\<lambda>n sigma. 0), sDigitize = (\<lambda>x. x), Calibrate = (\<lambda>x. x)\<rparr>"

text \<open>Collaborators whose noise sample is 1 on the even channels and 0 on the odd ones.\<close>

definition humming :: "AliPHOSGeometry \<Rightarrow> Collaborators" where
  "humming geom =
     \<lparr>PHOSGeometry = geom, Gaus = (\<lambda>n sigma. if even n then 1 else 0),
      sDigitize = (\<lambda>x. x), Calibrate = (\<lambda>x. x)\<rparr>"

definition sdigit :: "int \<Rightarrow> real \<Rightarrow> real \<Rightarrow> 32 word \<Rightarrow> AliPHOSDigit" where
  "sdigit absID amp time primary =
     \<lparr>fId = absID, fAmp = amp, fTime = time, fPrimary = [(primary, 1)], fIndexInList = - 1\<rparr>"

text \<open>
  The end-to-end scenario with both records at time 1: one input with the amplitude 1 on
  channel 2 and the amplitude 1/2 on channel 6.
\<close>

definition scenarioInput :: "AliPHOSDigit list list" where
  "scenarioInput = [[sdigit 2 1 1 1, sdigit 6 (1 / 2) 1 2]]"

text \<open>One input with a record at time 7 on the EMC channel 1.\<close>

definition emcTimeInput :: "AliPHOSDigit list list" where
  "emcTimeInput = [[sdigit 1 1 7 1, sdigit 2 1 1 1]]"




text \<open>One input that deposits on the CPV channels 5 and 6.\<close>

definition cpvInput :: "AliPHOSDigit list list" where
  "cpvInput = [[sdigit 5 1 (1 / 2) 1, sdigit 6 1 1 1]]"

text \<open>
  Two inputs that each deposit the amplitude 5 on channel 10; the first one has an earlier
  record on channel 4.
\<close>

definition conservationInputs :: "AliPHOSDigit list list" where
  "conservationInputs = [[sdigit 4 1 1 1, sdigit 10 5 1 2], [sdigit 10 5 1 1]]"

text \<open>
  One input whose channel identifiers are 5, 3, 7, and one whose channel identifiers are
  2, 1, 3.
\<close>

definition unsortedInput :: "AliPHOSDigit list list" where
  "unsortedInput = [[sdigit 5 1 1 1, sdigit 3 1 1 2, sdigit 7 1 1 3]]"

definition unsortedEMCInput :: "AliPHOSDigit list list" where
  "unsortedEMCInput = [[sdigit 2 1 1 1, sdigit 1 1 1 2, sdigit 3 1 1 3]]"


section \<open>The scratch arrays\<close>

text \<open>
  An assignment through one of the two pointers replaces the array by zeros, as many as
  the integer part of the value assigned, so \<^verbatim>\<open>FrontEdgeTime\<close> finds a zero in slot
  0 when the last value assigned was at least 1, and no slot at all otherwise.
\<close>

lemma Int_t_of_pos: "0 < nat (Int_t_of v) \<longleftrightarrow> 1 \<le> v"
  by (auto simp: Int_t_of_def)

lemma TArrayF_assign_0: "TArrayF_assign 0 v = Inr (TArrayF_ctor (Int_t_of v))"
  by (simp add: TArrayF_assign_def)

lemma TArrayF_assign_Suc: "TArrayF_assign (Suc n) v = Inl OutOfBounds"
  by (simp add: TArrayF_assign_def)

lemma FrontEdgeTime_ctor:
  "FrontEdgeTime en (TArrayF_ctor (Int_t_of t)) = (if 1 \<le> t then Inr 0 else Inl OutOfBounds)"
  using Int_t_of_pos [of t]
  by (simp add: FrontEdgeTime_def TArrayF_At_def TArrayF_ctor_def)

text \<open>
  The facts that a run on a concrete input unfolds.
\<close>

lemmas run_defs = emcChannel_def cpvChannel_def newDigit_def noiseDigit_def TimeOfNoise_def
  TArrayF_assign_0 TArrayF_assign_Suc FrontEdgeTime_ctor primaryoffset_def digit_plus_def
  ShiftPrimary_def At_def AtSlot_def initialState_def Let_def

section \<open>The slots after the merge\<close>

lemma channelLoop_append:
  "channelLoop body (xs @ ys) st =
     (case channelLoop body xs st of Inl e \<Rightarrow> Inl e | Inr st' \<Rightarrow> channelLoop body ys st')"
  by (induction xs arbitrary: st) (auto split: sum.splits)

lemma fId_digit_plus [simp]: "fId (digit_plus a b) = fId a"
  by (simp add: digit_plus_def)

lemma drainEMC_fId:
  "drainEMC absID shift unread (digit, en, ti, contrib, k) = Inr (digit', en', ti', contrib', k')
   \<Longrightarrow> fId digit' = fId digit"
  by (induction unread arbitrary: digit en ti contrib k)
     (auto split: if_splits sum.splits)

lemma addInputsEMC_fId:
  "addInputsEMC absID offs i sdigArray ks (digit, en, ti, contrib) = Inr ((digit', en', ti', contrib'), ks')
   \<Longrightarrow> fId digit' = fId digit"
proof (induction absID offs i sdigArray ks "(digit, en, ti, contrib)" arbitrary: digit en ti contrib ks' rule: addInputsEMC.induct)
  case (1 absID offs i sdigits rest k ks digit energies tms contrib)
  then show ?case
    by (auto split: sum.splits prod.splits dest: drainEMC_fId)
qed auto

lemma drainCPV_fId:
  "drainCPV absID shift unread (digit, k) = (digit', k') \<Longrightarrow> fId digit' = fId digit"
  by (induction unread arbitrary: digit k) (auto split: if_splits)

lemma addInputsCPV_fId:
  "addInputsCPV absID offs i sdigArray ks digit = (digit', ks') \<Longrightarrow> fId digit' = fId digit"
proof (induction absID offs i sdigArray ks digit arbitrary: ks' rule: addInputsCPV.induct)
  case (1 absID offs i sdigits rest k ks digit)
  then show ?case
    by (auto split: prod.splits dest: drainCPV_fId)
qed auto

lemma emcChannel_slots:
  assumes "emcChannel this gime sdigArray absID st = Inr st'"
  shows "slotIds (digits st') = (slotIds (digits st))[absID - 1 := Some (int absID)]"
  using assms
  by (auto simp: emcChannel_def Let_def slotIds_def newDigit_def map_update
      split: if_splits sum.splits prod.splits dest!: addInputsEMC_fId)

lemma cpvChannel_slots:
  assumes "cpvChannel this gime sdigArray absID st = Inr st'"
  shows "slotIds (digits st') = (slotIds (digits st))[absID - 1 := Some (int absID)]"
  using assms
  by (auto simp: cpvChannel_def Let_def slotIds_def newDigit_def map_update
      split: if_splits sum.splits prod.splits dest!: addInputsCPV_fId)

lemma channelLoop_slots:
  assumes step: "\<And>a s s'. body a s = Inr s' \<Longrightarrow> slotIds (digits s') = fillSlot a (slotIds (digits s))"
  shows "channelLoop body cs st = Inr st' \<Longrightarrow>
         slotIds (digits st') = fold fillSlot cs (slotIds (digits st))"
proof (induction cs arbitrary: st)
  case Nil
  then show ?case by simp
next
  case (Cons c cs)
  then obtain s1 where s1: "body c st = Inr s1" and rest: "channelLoop body cs s1 = Inr st'"
    by (auto split: sum.splits)
  from Cons.IH [OF rest] step [OF s1] show ?case by simp
qed

lemma fold_fillSlot:
  "n \<le> length ids \<Longrightarrow>
   fold fillSlot [1..<Suc n] ids = map (\<lambda>i. Some (int i)) [1..<Suc n] @ drop n ids"
proof (induction n)
  case 0
  then show ?case by simp
next
  case (Suc n)
  then have n: "n < length ids" by simp
  have "fold fillSlot [1..<Suc (Suc n)] ids = fillSlot (Suc n) (fold fillSlot [1..<Suc n] ids)"
    by simp
  also have "\<dots> = fillSlot (Suc n) (map (\<lambda>i. Some (int i)) [1..<Suc n] @ drop n ids)"
    using Suc by simp
  also have "\<dots> = map (\<lambda>i. Some (int i)) [1..<Suc n] @ (drop n ids)[0 := Some (int (Suc n))]"
    by (simp add: fillSlot_def list_update_append)
  also have "(drop n ids)[0 := Some (int (Suc n))] = Some (int (Suc n)) # drop (Suc n) ids"
    using n by (simp add: Cons_nth_drop_Suc [symmetric])
  finally show ?case by simp
qed

lemma merge_slotIds:
  assumes "merge this gime sdigArray = Inr st"
  shows "slotIds (digits st) = map (\<lambda>i. Some (int i)) [1..<Suc (nCPV_of (PHOSGeometry gime))]"
proof -
  let ?nE = "nEMC_of (PHOSGeometry gime)" and ?nC = "nCPV_of (PHOSGeometry gime)"
  have le: "?nE \<le> ?nC" by (simp add: nCPV_of_def)
  from assms obtain n0 s1 where
    s1: "channelLoop (emcChannel this gime sdigArray) [1..<Suc ?nE]
           (initialState ?nC (length sdigArray) n0) = Inr s1"
    and st: "channelLoop (cpvChannel this gime sdigArray) [Suc ?nE..<Suc ?nC] s1 = Inr st"
    by (auto simp: merge_def Let_def split: sum.splits)
  have a: "slotIds (digits s1) = fold fillSlot [1..<Suc ?nE] (replicate ?nC None)"
    using channelLoop_slots [OF _ s1] emcChannel_slots
    by (simp add: fillSlot_def initialState_def slotIds_def)
  have b: "slotIds (digits st) = fold fillSlot [Suc ?nE..<Suc ?nC] (slotIds (digits s1))"
    using channelLoop_slots [OF _ st] cpvChannel_slots by (simp add: fillSlot_def)
  have "[1..<Suc ?nC] = [1..<Suc ?nE] @ [Suc ?nE..<Suc ?nC]"
    using le by (metis Suc_le_mono le_add1 plus_1_eq_Suc upt_add_eq_append le_Suc_ex)
  then have "slotIds (digits st) = fold fillSlot [1..<Suc ?nC] (replicate ?nC None)"
    using a b by simp
  then show ?thesis
    using fold_fillSlot [of ?nC "replicate ?nC None"] by (simp del: upt_Suc)
qed

lemma slotIds_all_filled:
  assumes "slotIds ds = map (\<lambda>i. Some (int i)) [1..<Suc n]"
  shows "\<exists>xs. ds = map Some xs \<and> map fId xs = map int [1..<Suc n]"
proof -
  have len: "length ds = n" using assms [THEN arg_cong, of length] by (simp add: slotIds_def)
  have nth: "\<And>i. i < n \<Longrightarrow> map_option fId (ds ! i) = Some (int (Suc i))"
  proof -
    fix i assume i: "i < n"
    have "slotIds ds ! i = map_option fId (ds ! i)" using i len by (simp add: slotIds_def)
    moreover have "map (\<lambda>i. Some (int i)) [1..<Suc n] ! i = Some (int (Suc i))"
      using i by (simp del: upt_Suc)
    ultimately show "map_option fId (ds ! i) = Some (int (Suc i))" using assms by simp
  qed
  have ds: "ds = map Some (map the ds)"
  proof (rule nth_equalityI)
    show "length ds = length (map Some (map the ds))" by simp
    fix i assume "i < length ds"
    with nth [of i] len show "ds ! i = map Some (map the ds) ! i" by auto
  qed
  have "map fId (map the ds) = map int [1..<Suc n]"
  proof (rule nth_equalityI)
    show "length (map fId (map the ds)) = length (map int [1..<Suc n])" using len by simp
    fix i assume "i < length (map fId (map the ds))"
    then have i: "i < n" using len by simp
    with nth [of i] len show "map fId (map the ds) ! i = map int [1..<Suc n] ! i"
      by (auto simp del: upt_Suc)
  qed
  with ds show ?thesis by blast
qed

section \<open>Thresholds, compaction and indexes\<close>

lemma removeBelow_nth:
  assumes "distinct idxs" and "\<forall>i\<in>set idxs. i < length ds \<and> ds ! i \<noteq> None"
  shows "\<exists>ds'. removeBelow cal thr idxs ds = Inr ds' \<and> length ds' = length ds \<and>
           (\<forall>i<length ds. ds' ! i = (if i \<in> set idxs \<and> below cal thr (ds ! i) then None else ds ! i))"
  using assms
proof (induction idxs arbitrary: ds)
  case Nil
  then show ?case by simp
next
  case (Cons a idxs)
  then obtain d where d: "ds ! a = Some d" and a: "a < length ds" by auto
  let ?ds1 = "if cal (fAmp d) < thr then ds[a := None] else ds"
  have step: "removeBelow cal thr (a # idxs) ds = removeBelow cal thr idxs ?ds1"
    using d a by (simp add: AtSlot_def)
  have pre: "\<forall>i\<in>set idxs. i < length ?ds1 \<and> ?ds1 ! i \<noteq> None"
    using Cons.prems by (auto simp: nth_list_update)
  from Cons.IH [OF _ pre] Cons.prems(1) obtain ds' where
    r: "removeBelow cal thr idxs ?ds1 = Inr ds'" and l: "length ds' = length ?ds1"
    and n: "\<forall>i<length ?ds1. ds' ! i = (if i \<in> set idxs \<and> below cal thr (?ds1 ! i) then None else ?ds1 ! i)"
    by auto
  have l1: "length ?ds1 = length ds" by simp
  have other: "\<And>i. i \<noteq> a \<Longrightarrow> ?ds1 ! i = ds ! i" by simp
  have at_a: "?ds1 ! a = (if cal (fAmp d) < thr then None else Some d)"
    using a d by simp
  have "\<forall>i<length ds. ds' ! i = (if i \<in> set (a # idxs) \<and> below cal thr (ds ! i) then None else ds ! i)"
  proof (intro allI impI)
    fix i assume i: "i < length ds"
    then have ni: "ds' ! i = (if i \<in> set idxs \<and> below cal thr (?ds1 ! i) then None else ?ds1 ! i)"
      using n l1 by metis
    show "ds' ! i = (if i \<in> set (a # idxs) \<and> below cal thr (ds ! i) then None else ds ! i)"
    proof (cases "i = a")
      case True
      then have "i \<notin> set idxs" using Cons.prems(1) by simp
      then have "ds' ! a = ?ds1 ! a" using ni True by simp
      then show ?thesis using True d at_a by (simp add: below_def)
    next
      case False
      then show ?thesis using ni other [OF False] by simp
    qed
  qed
  with step r l l1 show ?case by metis
qed

lemma Compress_map_enumerate:
  "Compress (map (\<lambda>(i, d). if P i d then None else Some d) (enumerate n xs)) =
   map snd (filter (\<lambda>(i, d). \<not> P i d) (enumerate n xs))"
  by (induction xs arbitrary: n) auto

lemma compactDigits_filled:
  assumes len: "length xs = nCPV_of (PHOSGeometry gime)"
  shows "compactDigits this gime (map Some xs) =
     Inr (setIndexes 0 (map snd (filter
       (\<lambda>(i, d). \<not> Calibrate gime (fAmp d) <
          (if i < nEMC_of (PHOSGeometry gime) then fEMCDigitThreshold this
           else fCPVDigitThreshold this))
       (enumerate 0 xs))))"
proof -
  let ?nE = "nEMC_of (PHOSGeometry gime)" and ?nC = "nCPV_of (PHOSGeometry gime)"
  let ?cal = "Calibrate gime"
  let ?ds = "map Some xs"
  have le: "?nE \<le> ?nC" by (simp add: nCPV_of_def)
  from removeBelow_nth [of "[0..<?nE]" ?ds ?cal "fEMCDigitThreshold this"] len le
  obtain ds1 where r1: "removeBelow ?cal (fEMCDigitThreshold this) [0..<?nE] ?ds = Inr ds1"
    and l1: "length ds1 = ?nC"
    and n1: "\<forall>i<?nC. ds1 ! i = (if i < ?nE \<and> below ?cal (fEMCDigitThreshold this) (?ds ! i) then None else ?ds ! i)"
    by auto
  have pre2: "\<forall>i\<in>set [?nE..<?nC]. i < length ds1 \<and> ds1 ! i \<noteq> None"
    using n1 l1 len by simp
  from removeBelow_nth [OF _ pre2, of ?cal "fCPVDigitThreshold this"] l1
  obtain ds2 where r2: "removeBelow ?cal (fCPVDigitThreshold this) [?nE..<?nC] ds1 = Inr ds2"
    and l2: "length ds2 = ?nC"
    and n2: "\<forall>i<?nC. ds2 ! i = (if ?nE \<le> i \<and> below ?cal (fCPVDigitThreshold this) (ds1 ! i) then None else ds1 ! i)"
    by auto
  let ?P = "\<lambda>i d. ?cal (fAmp d) < (if i < ?nE then fEMCDigitThreshold this else fCPVDigitThreshold this)"
  have "ds2 = map (\<lambda>(i, d). if ?P i d then None else Some d) (enumerate 0 xs)"
  proof (rule nth_equalityI)
    show "length ds2 = length (map (\<lambda>(i, d). if ?P i d then None else Some d) (enumerate 0 xs))"
      using l2 len by simp
    fix i assume "i < length ds2"
    then have i: "i < ?nC" using l2 by simp
    then show "ds2 ! i = map (\<lambda>(i, d). if ?P i d then None else Some d) (enumerate 0 xs) ! i"
      using n1 n2 len by (simp add: nth_enumerate_eq below_def)
  qed
  then have "Compress ds2 = map snd (filter (\<lambda>(i, d). \<not> ?P i d) (enumerate 0 xs))"
    by (simp only: Compress_map_enumerate)
  with r1 r2 show ?thesis by (simp add: compactDigits_def Let_def)
qed

lemma filter_enumerate_ids:
  assumes "\<And>i. i < length xs \<Longrightarrow> fId (xs ! i) = int (Suc (n + i))"
  shows "map snd (filter (\<lambda>(i, d). Q (int (Suc i)) d) (enumerate n xs)) = filter (\<lambda>d. Q (fId d) d) xs"
  using assms
proof (induction xs arbitrary: n)
  case Nil
  then show ?case by simp
next
  case (Cons x xs)
  from Cons.prems [of 0] have hd: "fId x = int (Suc n)" by simp
  have tl: "\<And>i. i < length xs \<Longrightarrow> fId (xs ! i) = int (Suc (Suc n + i))"
    using Cons.prems [of "Suc i" for i] by simp
  from Cons.IH [OF tl] hd show ?case by simp
qed

lemma setIndexes_index: "map fIndexInList (setIndexes n ys) = map int [n..<n + length ys]"
  by (induction ys arbitrary: n) (simp_all add: upt_rec)

lemma setIndexes_fId: "map fId (setIndexes n ys) = map fId ys"
  by (induction ys arbitrary: n) simp_all

lemma setIndexes_length: "length (setIndexes n ys) = length ys"
  by (induction ys arbitrary: n) simp_all

lemma Digitize_compacted:
  assumes "Digitize this gime sdigArray = Inr out"
  shows "\<exists>st xs. merge this gime sdigArray = Inr st \<and> digits st = map Some xs \<and>
           map fId xs = map int [1..<Suc (nCPV_of (PHOSGeometry gime))] \<and>
           out = setIndexes 0
                   (filter (\<lambda>d. \<not> Calibrate gime (fAmp d) < classThreshold this gime (fId d)) xs)"
proof -
  let ?nC = "nCPV_of (PHOSGeometry gime)"
  from assms obtain st where st: "merge this gime sdigArray = Inr st"
    and out: "compactDigits this gime (digits st) = Inr out"
    by (auto simp: Digitize_def split: sum.splits)
  from slotIds_all_filled [OF merge_slotIds [OF st]] obtain xs where
    xs: "digits st = map Some xs" and ids: "map fId xs = map int [1..<Suc ?nC]"
    by blast
  have len: "length xs = ?nC"
    using ids [THEN arg_cong, of length] by simp
  have nth: "\<And>i. i < length xs \<Longrightarrow> fId (xs ! i) = int (Suc (0 + i))"
  proof -
    fix i assume i: "i < length xs"
    then have "fId (xs ! i) = map fId xs ! i" by simp
    also have "\<dots> = int (Suc i)" using i len unfolding ids by (simp del: upt_Suc)
    finally show "fId (xs ! i) = int (Suc (0 + i))" by simp
  qed
  let ?Q = "\<lambda>c d. \<not> Calibrate gime (fAmp d) < classThreshold this gime c"
  let ?P = "\<lambda>(i, d). \<not> Calibrate gime (fAmp d) <
          (if i < nEMC_of (PHOSGeometry gime) then fEMCDigitThreshold this
           else fCPVDigitThreshold this)"
  have f: "map snd (filter (\<lambda>(i, d). ?Q (int (Suc i)) d) (enumerate 0 xs)) =
           filter (\<lambda>d. ?Q (fId d) d) xs"
    by (rule filter_enumerate_ids [OF nth])
  have p: "(\<lambda>(i, d). ?Q (int (Suc i)) d) = ?P"
    by (auto simp: classThreshold_def fun_eq_iff)
  have "Inr out = Inr (setIndexes 0 (map snd (filter ?P (enumerate 0 xs))))"
    using out compactDigits_filled [OF len, of this] unfolding xs by simp
  then have "out = setIndexes 0 (map snd (filter ?P (enumerate 0 xs)))"
    by (simp only: sum.inject)
  then have "out = setIndexes 0 (filter (\<lambda>d. ?Q (fId d) d) xs)"
    unfolding p [symmetric] f .
  with st xs ids show ?thesis by blast
qed

lemma compactDigits_channels:
  assumes ids: "map fId xs = map int [1..<Suc (nCPV_of (PHOSGeometry gime))]"
  shows "compactDigits this gime (map Some xs) =
     Inr (setIndexes 0
            (filter (\<lambda>d. \<not> Calibrate gime (fAmp d) < classThreshold this gime (fId d)) xs))"
proof -
  let ?nC = "nCPV_of (PHOSGeometry gime)"
  have len: "length xs = ?nC"
    using ids [THEN arg_cong, of length] by simp
  have nth: "\<And>i. i < length xs \<Longrightarrow> fId (xs ! i) = int (Suc (0 + i))"
  proof -
    fix i assume i: "i < length xs"
    then have "fId (xs ! i) = map fId xs ! i" by simp
    also have "\<dots> = int (Suc i)" using i len unfolding ids by (simp del: upt_Suc)
    finally show "fId (xs ! i) = int (Suc (0 + i))" by simp
  qed
  let ?Q = "\<lambda>c d. \<not> Calibrate gime (fAmp d) < classThreshold this gime c"
  let ?P = "\<lambda>(i, d). \<not> Calibrate gime (fAmp d) <
          (if i < nEMC_of (PHOSGeometry gime) then fEMCDigitThreshold this
           else fCPVDigitThreshold this)"
  have f: "map snd (filter (\<lambda>(i, d). ?Q (int (Suc i)) d) (enumerate 0 xs)) =
           filter (\<lambda>d. ?Q (fId d) d) xs"
    by (rule filter_enumerate_ids [OF nth])
  have p: "(\<lambda>(i, d). ?Q (int (Suc i)) d) = ?P"
    by (auto simp: classThreshold_def fun_eq_iff)
  show ?thesis
    unfolding compactDigits_filled [OF len] p [symmetric] f ..
qed

text \<open>
  C5. Whenever \<open>Digitize\<close> returns a list of digits, the merge has left exactly one digit
  per channel \<open>1, \<dots>, nCPV\<close>, in channel order, and the list returned consists of exactly
  those digits whose calibrated amplitude is not strictly below the threshold of the class
  of their channel (the EMC threshold for the channels up to \<open>nEMC\<close>, the CPV threshold
  for the others), in the same order, with their indexes set.
\<close>

theorem Digitize_drops_below_threshold:
  assumes "Digitize this gime sdigArray = Inr out"
  shows "\<exists>st xs. merge this gime sdigArray = Inr st \<and> digits st = map Some xs \<and>
           map fId xs = map int [1..<Suc (nCPV_of (PHOSGeometry gime))] \<and>
           out = setIndexes 0
                   (filter (\<lambda>d. \<not> Calibrate gime (fAmp d) < classThreshold this gime (fId d)) xs)"
  using assms by (rule Digitize_compacted)

theorem Digitize_drops_below_threshold_witness:
  "Digitize AliPHOSDigitizer_ctor (humming geometry46) cpvInput =
     Inr [\<lparr>fId = 2, fAmp = 1, fTime = 1, fPrimary = [], fIndexInList = 0\<rparr>,
          \<lparr>fId = 4, fAmp = 1, fTime = 1, fPrimary = [], fIndexInList = 1\<rparr>,
          \<lparr>fId = 5, fAmp = 1, fTime = 1, fPrimary = [(1, 1)], fIndexInList = 2\<rparr>,
          \<lparr>fId = 6, fAmp = 1, fTime = 1, fPrimary = [], fIndexInList = 3\<rparr>] \<and>
   (\<exists>st xs. merge AliPHOSDigitizer_ctor (humming geometry46) cpvInput = Inr st \<and>
      digits st = map Some xs \<and>
      map fId xs = map int [1..<Suc (nCPV_of (PHOSGeometry (humming geometry46)))] \<and>
      [\<lparr>fId = 2, fAmp = 1, fTime = 1, fPrimary = [], fIndexInList = 0\<rparr>,
       \<lparr>fId = 4, fAmp = 1, fTime = 1, fPrimary = [], fIndexInList = 1\<rparr>,
       \<lparr>fId = 5, fAmp = 1, fTime = 1, fPrimary = [(1, 1)], fIndexInList = 2\<rparr>,
       \<lparr>fId = 6, fAmp = 1, fTime = 1, fPrimary = [], fIndexInList = 3\<rparr>] =
        setIndexes 0
          (filter (\<lambda>d. \<not> Calibrate (humming geometry46) (fAmp d) <
                          classThreshold AliPHOSDigitizer_ctor (humming geometry46) (fId d)) xs)) \<and>
   Digitize AliPHOSDigitizer_ctor (quiet geometry46) scenarioInput =
     Inr [\<lparr>fId = 2, fAmp = 1, fTime = 0, fPrimary = [(1, 1)], fIndexInList = 0\<rparr>] \<and>
   (\<exists>st xs. merge AliPHOSDigitizer_ctor (quiet geometry46) scenarioInput = Inr st \<and>
      digits st = map Some xs \<and>
      map fId xs = map int [1..<Suc (nCPV_of (PHOSGeometry (quiet geometry46)))] \<and>
      [\<lparr>fId = 2, fAmp = 1, fTime = 0, fPrimary = [(1, 1)], fIndexInList = 0\<rparr>] =
        setIndexes 0
          (filter (\<lambda>d. \<not> Calibrate (quiet geometry46) (fAmp d) <
                          classThreshold AliPHOSDigitizer_ctor (quiet geometry46) (fId d)) xs))"
proof -
  have e: "Digitize AliPHOSDigitizer_ctor (humming geometry46) cpvInput =
     Inr [\<lparr>fId = 2, fAmp = 1, fTime = 1, fPrimary = [], fIndexInList = 0\<rparr>,
          \<lparr>fId = 4, fAmp = 1, fTime = 1, fPrimary = [], fIndexInList = 1\<rparr>,
          \<lparr>fId = 5, fAmp = 1, fTime = 1, fPrimary = [(1, 1)], fIndexInList = 2\<rparr>,
          \<lparr>fId = 6, fAmp = 1, fTime = 1, fPrimary = [], fIndexInList = 3\<rparr>]"
    by code_simp
  have s: "Digitize AliPHOSDigitizer_ctor (quiet geometry46) scenarioInput =
     Inr [\<lparr>fId = 2, fAmp = 1, fTime = 0, fPrimary = [(1, 1)], fIndexInList = 0\<rparr>]"
    by code_simp
  show ?thesis
    by (intro conjI) (fact e Digitize_drops_below_threshold [OF e] s
        Digitize_drops_below_threshold [OF s])+
qed

text \<open>
  C6. Whenever \<open>Digitize\<close> returns a list of digits, their list indexes are
  \<open>0, 1, \<dots>, count - 1\<close> in list order (a contiguous range without gap or duplicate), and
  the channel identifiers are strictly ascending along the list.
\<close>

theorem Digitize_indexes_dense:
  assumes "Digitize this gime sdigArray = Inr out"
  shows "map fIndexInList out = map int [0..<length out] \<and> sorted_wrt (<) (map fId out)"
proof -
  from Digitize_compacted [OF assms] obtain xs keep where
    ids: "map fId xs = map int [1..<Suc (nCPV_of (PHOSGeometry gime))]"
    and out: "out = setIndexes 0 (filter keep xs)"
    by blast
  have "sorted_wrt (<) (map int [1..<Suc (nCPV_of (PHOSGeometry gime))])"
    by (simp add: sorted_wrt_map del: upt_Suc)
  then have "sorted_wrt (\<lambda>a b. fId a < fId b) xs"
    unfolding ids [symmetric] by (simp add: sorted_wrt_map)
  then have "sorted_wrt (\<lambda>a b. fId a < fId b) (filter keep xs)"
    by (rule sorted_wrt_filter)
  then have "sorted_wrt (<) (map fId out)"
    unfolding out setIndexes_fId by (simp add: sorted_wrt_map)
  moreover have "map fIndexInList out = map int [0..<length out]"
    unfolding out using setIndexes_index [of 0] by (simp add: setIndexes_length)
  ultimately show ?thesis by simp
qed

theorem Digitize_indexes_dense_witness:
  "Digitize AliPHOSDigitizer_ctor (humming geometry46) scenarioInput =
     Inr [\<lparr>fId = 2, fAmp = 2, fTime = 0, fPrimary = [(1, 1)], fIndexInList = 0\<rparr>,
          \<lparr>fId = 4, fAmp = 1, fTime = 1, fPrimary = [], fIndexInList = 1\<rparr>,
          \<lparr>fId = 6, fAmp = 1, fTime = 1, fPrimary = [], fIndexInList = 2\<rparr>] \<and>
   map fIndexInList
     [\<lparr>fId = 2, fAmp = 2, fTime = 0, fPrimary = [(1, 1)], fIndexInList = 0\<rparr>,
      \<lparr>fId = 4, fAmp = 1, fTime = 1, fPrimary = [], fIndexInList = 1\<rparr>,
      \<lparr>fId = 6, fAmp = 1, fTime = 1, fPrimary = [], fIndexInList = 2\<rparr>] = [0, 1, 2] \<and>
   sorted_wrt (<)
     (map fId
        [\<lparr>fId = 2, fAmp = 2, fTime = 0, fPrimary = [(1, 1)], fIndexInList = 0\<rparr>,
         \<lparr>fId = 4, fAmp = 1, fTime = 1, fPrimary = [], fIndexInList = 1\<rparr>,
         \<lparr>fId = 6, fAmp = 1, fTime = 1, fPrimary = [], fIndexInList = 2\<rparr>])"
proof -
  have e: "Digitize AliPHOSDigitizer_ctor (humming geometry46) scenarioInput =
     Inr [\<lparr>fId = 2, fAmp = 2, fTime = 0, fPrimary = [(1, 1)], fIndexInList = 0\<rparr>,
          \<lparr>fId = 4, fAmp = 1, fTime = 1, fPrimary = [], fIndexInList = 1\<rparr>,
          \<lparr>fId = 6, fAmp = 1, fTime = 1, fPrimary = [], fIndexInList = 2\<rparr>]"
    by code_simp
  from Digitize_indexes_dense [OF e] e show ?thesis by (simp add: upt_rec)
qed

section \<open>Frames and invariants of the channel loops\<close>

lemma firstSig_mem:
  "firstSig sdigArray n = Inr c \<Longrightarrow> c \<in> insert n (fId ` set (concat sdigArray))"
proof (induction sdigArray arbitrary: n)
  case Nil
  then show ?case by simp
next
  case (Cons s rest)
  then obtain d where d: "At s 0 = Some d"
    and r: "firstSig rest (if fId d < n then fId d else n) = Inr c"
    by (auto split: option.splits)
  from d have "d \<in> set s" by (auto simp: At_def split: if_splits)
  with Cons.IH [OF r] show ?case by (auto split: if_splits)
qed

lemma findNextSig_mem:
  "findNextSig sdigArray ks n = Inr c \<Longrightarrow> c \<in> insert n (fId ` set (concat sdigArray))"
proof (induction sdigArray ks n rule: findNextSig.induct)
  case (1 s rest k ks n)
  then obtain d where d: "At s k = Some d"
    and r: "findNextSig rest ks (if fId d < n then fId d else n) = Inr c"
    by (auto split: option.splits)
  from d have "d \<in> set s" by (auto simp: At_def split: if_splits)
  with "1.IH" [OF d r] show ?case by (auto split: if_splits)
qed auto

lemma emcChannel_frame:
  assumes "emcChannel this gime sdigArray a s = Inr s'"
  shows "length (digits s') = length (digits s) \<and> (\<forall>i. i \<noteq> a - 1 \<longrightarrow> digits s' ! i = digits s ! i)"
  using assms
  by (auto simp: emcChannel_def Let_def split: if_splits sum.splits prod.splits)

lemma cpvChannel_frame:
  assumes "cpvChannel this gime sdigArray a s = Inr s'"
  shows "length (digits s') = length (digits s) \<and> (\<forall>i. i \<noteq> a - 1 \<longrightarrow> digits s' ! i = digits s ! i)"
  using assms
  by (auto simp: cpvChannel_def Let_def split: if_splits sum.splits prod.splits)

lemma channelLoop_frame:
  assumes frame: "\<And>a s s'. body a s = Inr s' \<Longrightarrow>
      length (digits s') = length (digits s) \<and> (\<forall>i. i \<noteq> a - 1 \<longrightarrow> digits s' ! i = digits s ! i)"
  shows "channelLoop body cs st = Inr st' \<Longrightarrow>
         length (digits st') = length (digits st) \<and>
         (\<forall>i. (\<forall>a\<in>set cs. i \<noteq> a - 1) \<longrightarrow> digits st' ! i = digits st ! i)"
proof (induction cs arbitrary: st)
  case Nil
  then show ?case by simp
next
  case (Cons a cs)
  then obtain s1 where s1: "body a st = Inr s1" and rest: "channelLoop body cs s1 = Inr st'"
    by (auto split: sum.splits)
  from frame [OF s1] Cons.IH [OF rest] show ?case by simp
qed

lemma channelLoop_inv:
  assumes keep: "\<And>a s s'. a \<in> set cs \<Longrightarrow> Inv s \<Longrightarrow> body a s = Inr s' \<Longrightarrow> Inv s'"
  shows "channelLoop body cs st = Inr st' \<Longrightarrow> Inv st \<Longrightarrow> Inv st'"
  using keep
proof (induction cs arbitrary: st)
  case Nil
  then show ?case by simp
next
  case (Cons a cs)
  then obtain s1 where s1: "body a st = Inr s1" and rest: "channelLoop body cs s1 = Inr st'"
    by (auto split: sum.splits)
  have s1_inv: "Inv s1" using Cons.prems(3) [OF _ Cons.prems(2) s1] by simp
  show ?case
  proof (rule Cons.IH [OF rest s1_inv])
    fix b s s' assume "b \<in> set cs" "Inv s" "body b s = Inr s'"
    then show "Inv s'" using Cons.prems(3) [of b s s'] by simp
  qed
qed

lemma channelLoop_slot:
  assumes frame: "\<And>a s s'. body a s = Inr s' \<Longrightarrow>
      length (digits s') = length (digits s) \<and> (\<forall>i. i \<noteq> a - 1 \<longrightarrow> digits s' ! i = digits s ! i)"
    and keep: "\<And>a s s'. a \<noteq> c \<Longrightarrow> Inv s \<Longrightarrow> body a s = Inr s' \<Longrightarrow> Inv s'"
    and at: "\<And>s s'. Inv s \<Longrightarrow> body c s = Inr s' \<Longrightarrow> Q (digits s' ! (c - 1))"
  shows "channelLoop body cs st = Inr st' \<Longrightarrow> Inv st \<Longrightarrow> c \<in> set cs \<Longrightarrow> distinct cs \<Longrightarrow>
         0 \<notin> set cs \<Longrightarrow> Q (digits st' ! (c - 1))"
proof (induction cs arbitrary: st)
  case Nil
  then show ?case by simp
next
  case (Cons a cs)
  then obtain s1 where s1: "body a st = Inr s1" and rest: "channelLoop body cs s1 = Inr st'"
    by (auto split: sum.splits)
  show ?case
  proof (cases "a = c")
    case True
    have q: "Q (digits s1 ! (c - 1))" using at [OF Cons.prems(2)] s1 True by simp
    have "\<forall>b\<in>set cs. c - 1 \<noteq> b - 1"
    proof
      fix b assume b: "b \<in> set cs"
      from b Cons.prems(5) have "b \<noteq> 0" by (metis list.set_intros(2))
      moreover from Cons.prems(5) True have "c \<noteq> 0" by (metis list.set_intros(1))
      moreover from b Cons.prems(4) True have "b \<noteq> c" by (metis distinct.simps(2))
      ultimately
      show "c - 1 \<noteq> b - 1" by arith
    qed
    with channelLoop_frame [of body, OF frame rest] have "digits st' ! (c - 1) = digits s1 ! (c - 1)"
      by blast
    with q show ?thesis by simp
  next
    case False
    have "Inv s1" by (rule keep [OF False Cons.prems(2) s1])
    with Cons.IH [OF rest] Cons.prems False show ?thesis by simp
  qed
qed

lemma merge_split:
  assumes "merge this gime sdigArray = Inr st"
  obtains n0 s1 where "firstSig sdigArray 200000 = Inr n0"
    and "channelLoop (emcChannel this gime sdigArray) [1..<Suc (nEMC_of (PHOSGeometry gime))]
           (initialState (nCPV_of (PHOSGeometry gime)) (length sdigArray) n0) = Inr s1"
    and "channelLoop (cpvChannel this gime sdigArray)
           [Suc (nEMC_of (PHOSGeometry gime))..<Suc (nCPV_of (PHOSGeometry gime))] s1 = Inr st"
  using assms by (auto simp: merge_def Let_def split: sum.splits)

lemma emc_loop_frame:
  assumes "channelLoop (emcChannel this gime sdigArray) cs st = Inr st'"
  shows "length (digits st') = length (digits st) \<and>
         (\<forall>i. (\<forall>a\<in>set cs. i \<noteq> a - 1) \<longrightarrow> digits st' ! i = digits st ! i)"
  using emcChannel_frame assms by (rule channelLoop_frame)

lemma cpv_loop_frame:
  assumes "channelLoop (cpvChannel this gime sdigArray) cs st = Inr st'"
  shows "length (digits st') = length (digits st) \<and>
         (\<forall>i. (\<forall>a\<in>set cs. i \<noteq> a - 1) \<longrightarrow> digits st' ! i = digits st ! i)"
  using cpvChannel_frame assms by (rule channelLoop_frame)

lemma cpv_loop_keeps_emc_slot:
  assumes "channelLoop (cpvChannel this gime sdigArray) [Suc nE..<Suc nC] s1 = Inr st"
    and "0 < c" and "c \<le> nE"
  shows "digits st ! (c - 1) = digits s1 ! (c - 1)" and "length (digits st) = length (digits s1)"
proof -
  have "\<forall>a\<in>set [Suc nE..<Suc nC]. c - 1 \<noteq> a - 1" using assms(2,3) by auto
  with cpv_loop_frame [OF assms(1)]
  show "digits st ! (c - 1) = digits s1 ! (c - 1)" and "length (digits st) = length (digits s1)"
    by blast+
qed

text \<open>
  The rescan starts from the old value of \<^verbatim>\<open>nextSig\<close> and only replaces it by
  something smaller: it never raises it.
\<close>

lemma findNextSig_le: "findNextSig sdigArray ks n = Inr n' \<Longrightarrow> n' \<le> n"
proof (induction sdigArray ks n rule: findNextSig.induct)
  case (1 s rest k ks n)
  then obtain d where d: "At s k = Some d"
    and r: "findNextSig rest ks (if fId d < n then fId d else n) = Inr n'"
    by (auto split: option.splits)
  from "1.IH" [OF d r] show ?case by (auto split: if_splits)
qed auto

lemma emcChannel_nextSig:
  assumes "emcChannel this gime sdigArray a s = Inr s'"
  shows "nextSig s' = nextSig s \<or>
         (\<exists>ks. findNextSig sdigArray ks (nextSig s) = Inr (nextSig s'))"
  using assms
  by (auto simp: emcChannel_def Let_def split: if_splits sum.splits prod.splits)

lemma cpvChannel_nextSig:
  assumes "cpvChannel this gime sdigArray a s = Inr s'"
  shows "nextSig s' = nextSig s \<or>
         (\<exists>ks. findNextSig sdigArray ks (nextSig s) = Inr (nextSig s'))"
  using assms
  by (auto simp: cpvChannel_def Let_def split: if_splits sum.splits prod.splits)

text \<open>
  A channel that \<^verbatim>\<open>nextSig\<close> never equals is left with its noise digit: \<open>J\<close> is
  any set of values that holds the first value of \<^verbatim>\<open>nextSig\<close> and is closed under
  the rescan.
\<close>

lemma merge_untouched:
  assumes run: "merge this gime sdigArray = Inr st"
    and n: "0 < n" "n \<le> nCPV_of (PHOSGeometry gime)"
    and first: "\<And>n0. firstSig sdigArray 200000 = Inr n0 \<Longrightarrow> n0 \<in> J"
    and closed: "\<And>ks m m'. m \<in> J \<Longrightarrow> findNextSig sdigArray ks m = Inr m' \<Longrightarrow> m' \<in> J"
    and out: "int n \<notin> J"
  shows "AtSlot (digits st) (n - 1) =
           Some (newDigit (int n)
                   (sDigitize gime (Gaus gime n
                      (if n \<le> nEMC_of (PHOSGeometry gime) then fPinNoise this else fCPVNoise this)))
                   TimeOfNoise)"
proof -
  let ?nE = "nEMC_of (PHOSGeometry gime)" and ?nC = "nCPV_of (PHOSGeometry gime)"
  let ?emc = "emcChannel this gime sdigArray" and ?cpv = "cpvChannel this gime sdigArray"
  let ?noise = "newDigit (int n)
      (sDigitize gime (Gaus gime n (if n \<le> ?nE then fPinNoise this else fCPVNoise this)))
      TimeOfNoise"
  from run obtain n0 s1 where
    n0: "firstSig sdigArray 200000 = Inr n0"
    and emc: "channelLoop ?emc [1..<Suc ?nE] (initialState ?nC (length sdigArray) n0) = Inr s1"
    and cpv: "channelLoop ?cpv [Suc ?nE..<Suc ?nC] s1 = Inr st"
    by (rule merge_split)
  define Inv where "Inv s \<longleftrightarrow> nextSig s \<in> J \<and> length (digits s) = ?nC" for s :: MergeState
  define Q where "Q slot \<longleftrightarrow> slot = Some ?noise" for slot :: "AliPHOSDigit option"
  have keepE: "\<And>a s s'. a \<noteq> n \<Longrightarrow> Inv s \<Longrightarrow> ?emc a s = Inr s' \<Longrightarrow> Inv s'"
  proof -
    fix a s s' assume inv: "Inv s" and step: "?emc a s = Inr s'"
    from inv have "nextSig s \<in> J" by (simp add: Inv_def)
    with emcChannel_nextSig [OF step] closed have "nextSig s' \<in> J" by metis
    moreover from emcChannel_frame [OF step] inv have "length (digits s') = ?nC"
      by (simp add: Inv_def)
    ultimately show "Inv s'" by (simp add: Inv_def)
  qed
  have keepC: "\<And>a s s'. a \<noteq> n \<Longrightarrow> Inv s \<Longrightarrow> ?cpv a s = Inr s' \<Longrightarrow> Inv s'"
  proof -
    fix a s s' assume inv: "Inv s" and step: "?cpv a s = Inr s'"
    from inv have "nextSig s \<in> J" by (simp add: Inv_def)
    with cpvChannel_nextSig [OF step] closed have "nextSig s' \<in> J" by metis
    moreover from cpvChannel_frame [OF step] inv have "length (digits s') = ?nC"
      by (simp add: Inv_def)
    ultimately show "Inv s'" by (simp add: Inv_def)
  qed
  have init: "Inv (initialState ?nC (length sdigArray) n0)"
    using first [OF n0] by (simp add: Inv_def initialState_def)
  have len: "length (digits st) = ?nC"
    using emc_loop_frame [OF emc] cpv_loop_frame [OF cpv] by (simp add: initialState_def)
  have differs: "\<And>s. Inv s \<Longrightarrow> int n \<noteq> nextSig s"
    using out by (auto simp: Inv_def)
  show ?thesis
  proof (cases "n \<le> ?nE")
    case True
    have atE: "\<And>s s'. Inv s \<Longrightarrow> ?emc n s = Inr s' \<Longrightarrow> Q (digits s' ! (n - 1))"
    proof -
      fix s s' assume inv: "Inv s" and step: "?emc n s = Inr s'"
      from inv n have "n - 1 < length (digits s)" by (simp add: Inv_def)
      with step differs [OF inv] True show "Q (digits s' ! (n - 1))"
        by (auto simp: Q_def emcChannel_def Let_def)
    qed
    have "Q (digits s1 ! (n - 1))"
    proof (rule channelLoop_slot [where body = ?emc and c = n and Inv = Inv and Q = Q
          and cs = "[1..<Suc ?nE]" and st' = s1])
      show "channelLoop ?emc [1..<Suc ?nE] (initialState ?nC (length sdigArray) n0) = Inr s1"
        by (rule emc)
      show "n \<in> set [1..<Suc ?nE]" using n True by (simp del: upt_Suc)
      show "distinct [1..<Suc ?nE]" by (simp del: upt_Suc)
      show "0 \<notin> set [1..<Suc ?nE]" by (simp del: upt_Suc)
    qed (fact emcChannel_frame keepE atE init)+
    then show ?thesis
      using cpv_loop_keeps_emc_slot [OF cpv n(1) True] len n by (simp add: Q_def AtSlot_def)
  next
    case False
    have atC: "\<And>s s'. Inv s \<Longrightarrow> ?cpv n s = Inr s' \<Longrightarrow> Q (digits s' ! (n - 1))"
    proof -
      fix s s' assume inv: "Inv s" and step: "?cpv n s = Inr s'"
      from inv n have "n - 1 < length (digits s)" by (simp add: Inv_def)
      with step differs [OF inv] False show "Q (digits s' ! (n - 1))"
        by (auto simp: Q_def cpvChannel_def Let_def)
    qed
    have "n \<notin> set [1..<Suc ?nE]" using False by (simp del: upt_Suc)
    then have s1: "Inv s1"
    proof (intro channelLoop_inv [where Inv = Inv, OF _ emc init])
      fix a s s' assume "n \<notin> set [1..<Suc ?nE]" "a \<in> set [1..<Suc ?nE]" "Inv s" "?emc a s = Inr s'"
      then show "Inv s'" using keepE [of a s s'] by metis
    qed
    have "Q (digits st ! (n - 1))"
    proof (rule channelLoop_slot [where body = ?cpv and c = n and Inv = Inv and Q = Q
          and cs = "[Suc ?nE..<Suc ?nC]" and st' = st])
      show "channelLoop ?cpv [Suc ?nE..<Suc ?nC] s1 = Inr st" by (rule cpv)
      show "n \<in> set [Suc ?nE..<Suc ?nC]" using n False by (simp del: upt_Suc)
      show "distinct [Suc ?nE..<Suc ?nC]" by (simp del: upt_Suc)
      show "0 \<notin> set [Suc ?nE..<Suc ?nC]" by (simp del: upt_Suc)
    qed (fact cpvChannel_frame keepC atC s1)+
    then show ?thesis using len n False by (simp add: Q_def AtSlot_def)
  qed
qed

text \<open>A channel without any record is never the value of \<^verbatim>\<open>nextSig\<close>.\<close>

lemma merge_noise:
  assumes run: "merge this gime sdigArray = Inr st"
    and n: "0 < n" "n \<le> nCPV_of (PHOSGeometry gime)" "n \<noteq> 200000"
    and none: "recordsOn (int n) sdigArray = []"
  shows "AtSlot (digits st) (n - 1) =
           Some (newDigit (int n)
                   (sDigitize gime (Gaus gime n
                      (if n \<le> nEMC_of (PHOSGeometry gime) then fPinNoise this else fCPVNoise this)))
                   TimeOfNoise)"
proof (rule merge_untouched [where J = "insert 200000 (fId ` set (concat sdigArray))", OF run n(1,2)])
  fix n0 assume "firstSig sdigArray 200000 = Inr n0"
  then show "n0 \<in> insert 200000 (fId ` set (concat sdigArray))" by (rule firstSig_mem)
next
  fix ks m m'
  assume "m \<in> insert 200000 (fId ` set (concat sdigArray))"
    and "findNextSig sdigArray ks m = Inr m'"
  then show "m' \<in> insert 200000 (fId ` set (concat sdigArray))"
    using findNextSig_mem [of sdigArray ks m m'] by blast
next
  have "int n \<notin> fId ` set (concat sdigArray)"
    using none by (fastforce simp: recordsOn_def filter_empty_conv)
  then show "int n \<notin> insert 200000 (fId ` set (concat sdigArray))" using n(3) by simp
qed

text \<open>
  No channel above the first channel with signal is ever the value of
  \<^verbatim>\<open>nextSig\<close>: its digit is left as the noise, whatever the inputs hold for it.
\<close>

lemma merge_above_first:
  assumes run: "merge this gime sdigArray = Inr st"
    and first: "firstSig sdigArray 200000 = Inr c0"
    and n: "c0 < int n" "0 < n" "n \<le> nCPV_of (PHOSGeometry gime)"
  shows "AtSlot (digits st) (n - 1) =
           Some (newDigit (int n)
                   (sDigitize gime (Gaus gime n
                      (if n \<le> nEMC_of (PHOSGeometry gime) then fPinNoise this else fCPVNoise this)))
                   TimeOfNoise)"
proof (rule merge_untouched [where J = "{..c0}", OF run n(2,3)])
  fix n0 assume "firstSig sdigArray 200000 = Inr n0"
  with first show "n0 \<in> {..c0}" by simp
next
  fix ks m m' assume "m \<in> {..c0}" and "findNextSig sdigArray ks m = Inr m'"
  then show "m' \<in> {..c0}" using findNextSig_le [of sdigArray ks m m'] by simp
next
  show "int n \<notin> {..c0}" using n(1) by simp
qed

section \<open>The merge as one loop\<close>

lemma upt_split: "i \<le> j \<Longrightarrow> j \<le> k \<Longrightarrow> [i..<k] = [i..<j] @ [j..<k]"
  using upt_add_eq_append [of i j "k - j"] by simp

text \<open>
  The two channel loops are one loop over the channels \<open>1\<close> to \<open>nCPV\<close> with the
  body of the class of the channel.
\<close>

lemma channelLoop_cong:
  "(\<And>a. a \<in> set cs \<Longrightarrow> f a = g a) \<Longrightarrow> channelLoop f cs st = channelLoop g cs st"
  by (induction cs arbitrary: st) (auto split: sum.splits)

lemma merge_one_loop:
  "merge this gime sd =
     (case firstSig sd 200000 of
        Inl e \<Rightarrow> Inl e
      | Inr n0 \<Rightarrow>
          channelLoop (channelBody this gime sd) [1..<Suc (nCPV_of (PHOSGeometry gime))]
            (initialState (nCPV_of (PHOSGeometry gime)) (length sd) n0))"
proof -
  let ?nE = "nEMC_of (PHOSGeometry gime)" and ?nC = "nCPV_of (PHOSGeometry gime)"
  have le: "?nE \<le> ?nC" by (simp add: nCPV_of_def)
  have split: "[1..<Suc ?nC] = [1..<Suc ?nE] @ [Suc ?nE..<Suc ?nC]"
    using le by (intro upt_split) simp_all
  have e: "\<And>st. channelLoop (channelBody this gime sd) [1..<Suc ?nE] st =
                 channelLoop (emcChannel this gime sd) [1..<Suc ?nE] st"
    by (rule channelLoop_cong) (simp add: channelBody_def del: upt_Suc)
  have c: "\<And>st. channelLoop (channelBody this gime sd) [Suc ?nE..<Suc ?nC] st =
                 channelLoop (cpvChannel this gime sd) [Suc ?nE..<Suc ?nC] st"
    by (rule channelLoop_cong) (simp add: channelBody_def del: upt_Suc)
  show ?thesis
    unfolding merge_def Let_def split channelLoop_append e c ..
qed

text \<open>
  A channel that \<^verbatim>\<open>nextSig\<close> does not name only gets its noise digit: such a
  stretch of the loop always completes and changes nothing but the slots of its channels.
\<close>

lemma channelBody_noise:
  "int a \<noteq> nextSig s \<Longrightarrow>
   channelBody this gime sd a s =
     Inr (s\<lparr>digits := (digits s)[a - 1 := Some (noiseDigit this gime a)]\<rparr>)"
  by (simp add: channelBody_def emcChannel_def cpvChannel_def noiseDigit_def Let_def)

lemma channelLoop_noise:
  assumes "\<forall>a\<in>set cs. int a \<noteq> nextSig st"
  shows "channelLoop (channelBody this gime sd) cs st =
           Inr (st\<lparr>digits := fold (\<lambda>a ds. ds[a - 1 := Some (noiseDigit this gime a)]) cs
                                (digits st)\<rparr>)"
  using assms
proof (induction cs arbitrary: st)
  case Nil
  then show ?case by simp
next
  case (Cons a cs)
  let ?s1 = "st\<lparr>digits := (digits st)[a - 1 := Some (noiseDigit this gime a)]\<rparr>"
  have step: "channelBody this gime sd a st = Inr ?s1"
    using Cons.prems by (simp add: channelBody_noise)
  have "\<forall>b\<in>set cs. int b \<noteq> nextSig ?s1" using Cons.prems by simp
  from Cons.IH [OF this] step show ?case by simp
qed

lemma fold_put_length:
  "length (fold (\<lambda>a ds. ds[g a := h a]) cs ds) = length ds"
  by (induction cs arbitrary: ds) simp_all

lemma fold_put_nth:
  assumes "0 \<notin> set cs" and "i < length ds"
  shows "fold (\<lambda>a ds. ds[a - 1 := Some (f a)]) cs ds ! i =
           (if Suc i \<in> set cs then Some (f (Suc i)) else ds ! i)"
  using assms
proof (induction cs arbitrary: ds rule: rev_induct)
  case Nil
  then show ?case by simp
next
  case (snoc a cs)
  then have a: "a \<noteq> 0" by auto
  then have eq: "i = a - 1 \<longleftrightarrow> Suc i = a" by arith
  from snoc have ih: "fold (\<lambda>a ds. ds[a - 1 := Some (f a)]) cs ds ! i =
           (if Suc i \<in> set cs then Some (f (Suc i)) else ds ! i)" by simp
  show ?case
    using snoc.prems(2) ih eq by (auto simp: nth_list_update fold_put_length)
qed

text \<open>
  The body reads the cursors and \<^verbatim>\<open>nextSig\<close>, never the array of digits, and
  it never raises \<^verbatim>\<open>nextSig\<close>.
\<close>

lemma channelBody_digits:
  assumes "a - 1 < length (digits s)" and "length ds = length (digits s)"
  shows "channelBody this gime sd a (s\<lparr>digits := ds\<rparr>) =
           (case channelBody this gime sd a s of
              Inl e \<Rightarrow> Inl e
            | Inr s' \<Rightarrow> Inr (s'\<lparr>digits := ds[a - 1 := digits s' ! (a - 1)]\<rparr>))"
  using assms
  by (auto simp: channelBody_def emcChannel_def cpvChannel_def Let_def
      split: sum.splits prod.splits)

lemma channelBody_nextSig_le:
  assumes "channelBody this gime sd a s = Inr s'"
  shows "nextSig s' \<le> nextSig s"
proof (cases "a \<le> nEMC_of (PHOSGeometry gime)")
  case True
  with assms have "emcChannel this gime sd a s = Inr s'" by (simp add: channelBody_def)
  from emcChannel_nextSig [OF this] findNextSig_le show ?thesis by fastforce
next
  case False
  with assms have "cpvChannel this gime sd a s = Inr s'" by (simp add: channelBody_def)
  from cpvChannel_nextSig [OF this] findNextSig_le show ?thesis by fastforce
qed

text \<open>
  So the merge is decided by the body of the first channel with signal, run on the
  initial state: if it fails the merge fails, and if it returns the merge returns, with
  its digit in the slot of that channel and the noise digit in every other slot.
\<close>

lemma merge_first:
  assumes first: "firstSig sd 200000 = Inr (int c)"
    and c: "0 < c" "c \<le> nCPV_of (PHOSGeometry gime)"
  shows "merge this gime sd =
     (case channelBody this gime sd c
             (initialState (nCPV_of (PHOSGeometry gime)) (length sd) (int c)) of
        Inl e \<Rightarrow> Inl e
      | Inr s1 \<Rightarrow>
          Inr (s1\<lparr>digits :=
                 map (\<lambda>n. if n = c then digits s1 ! (c - 1) else Some (noiseDigit this gime n))
                   [1..<Suc (nCPV_of (PHOSGeometry gime))]\<rparr>))"
proof -
  let ?nC = "nCPV_of (PHOSGeometry gime)"
  let ?body = "channelBody this gime sd"
  let ?init = "initialState ?nC (length sd) (int c)"
  let ?put = "\<lambda>a ds. ds[a - 1 := Some (noiseDigit this gime a)]"
  let ?A = "fold ?put [1..<c] (digits ?init)"
  have split: "[1..<Suc ?nC] = [1..<c] @ c # [Suc c..<Suc ?nC]"
  proof -
    have "[1..<Suc ?nC] = [1..<c] @ [c..<Suc ?nC]" using c by (intro upt_split) simp_all
    moreover have "[c..<Suc ?nC] = c # [Suc c..<Suc ?nC]"
      using c by (simp add: upt_conv_Cons del: upt_Suc)
    ultimately show ?thesis by simp
  qed
  have pre: "channelLoop ?body [1..<c] ?init = Inr (?init\<lparr>digits := ?A\<rparr>)"
    by (rule channelLoop_noise) (simp add: initialState_def)
  have lenI: "length (digits ?init) = ?nC" by (simp add: initialState_def)
  have lenA: "length ?A = ?nC" by (simp add: fold_put_length lenI)
  have stepc: "?body c (?init\<lparr>digits := ?A\<rparr>) =
      (case ?body c ?init of
         Inl e \<Rightarrow> Inl e
       | Inr s' \<Rightarrow> Inr (s'\<lparr>digits := ?A[c - 1 := digits s' ! (c - 1)]\<rparr>))"
    using c by (intro channelBody_digits) (simp_all only: lenA lenI)
  have run: "merge this gime sd =
      (case ?body c (?init\<lparr>digits := ?A\<rparr>) of
         Inl e \<Rightarrow> Inl e
       | Inr s \<Rightarrow> channelLoop ?body [Suc c..<Suc ?nC] s)"
    unfolding merge_one_loop first sum.case split channelLoop_append pre
    by (simp del: upt_Suc)
  show ?thesis
  proof (cases "?body c ?init")
    case (Inl e)
    then show ?thesis unfolding run stepc by simp
  next
    case (Inr s1)
    let ?B = "?A[c - 1 := digits s1 ! (c - 1)]"
    let ?sb = "s1\<lparr>digits := ?B\<rparr>"
    have "nextSig s1 \<le> nextSig ?init" using Inr by (rule channelBody_nextSig_le)
    then have ns: "nextSig s1 \<le> int c" by (simp add: initialState_def)
    have post: "channelLoop ?body [Suc c..<Suc ?nC] ?sb =
        Inr (?sb\<lparr>digits := fold ?put [Suc c..<Suc ?nC] (digits ?sb)\<rparr>)"
      by (rule channelLoop_noise) (use ns in \<open>simp del: upt_Suc\<close>)
    have lenB: "length ?B = ?nC" using lenA by simp
    have "fold ?put [Suc c..<Suc ?nC] ?B =
        map (\<lambda>n. if n = c then digits s1 ! (c - 1) else Some (noiseDigit this gime n))
          [1..<Suc ?nC]"
    proof (rule nth_equalityI)
      show "length (fold ?put [Suc c..<Suc ?nC] ?B) =
          length (map (\<lambda>n. if n = c then digits s1 ! (c - 1) else Some (noiseDigit this gime n))
            [1..<Suc ?nC])"
        by (simp add: fold_put_length lenI del: upt_Suc)
    next
      fix i assume "i < length (fold ?put [Suc c..<Suc ?nC] ?B)"
      then have i: "i < ?nC" by (simp add: fold_put_length lenI)
      have a: "fold ?put [Suc c..<Suc ?nC] ?B ! i =
          (if Suc i \<in> set [Suc c..<Suc ?nC] then Some (noiseDigit this gime (Suc i)) else ?B ! i)"
        using i lenI by (intro fold_put_nth) (simp_all add: fold_put_length del: upt_Suc)
      have b: "?A ! i =
          (if Suc i \<in> set [1..<c] then Some (noiseDigit this gime (Suc i)) else digits ?init ! i)"
        using i lenI by (intro fold_put_nth) (simp_all del: upt_Suc)
      have "?B ! i = (if i = c - 1 then digits s1 ! (c - 1) else ?A ! i)"
        using i lenI by (simp add: nth_list_update fold_put_length)
      with a b have "fold ?put [Suc c..<Suc ?nC] ?B ! i =
          (if Suc i = c then digits s1 ! (c - 1) else Some (noiseDigit this gime (Suc i)))"
        using i c by (auto simp del: upt_Suc)
      also have "\<dots> = map (\<lambda>n. if n = c then digits s1 ! (c - 1)
                                else Some (noiseDigit this gime n)) [1..<Suc ?nC] ! i"
        using i by (simp del: upt_Suc)
      finally show "fold ?put [Suc c..<Suc ?nC] ?B ! i =
          map (\<lambda>n. if n = c then digits s1 ! (c - 1) else Some (noiseDigit this gime n))
            [1..<Suc ?nC] ! i" .
    qed
    with post have "channelLoop ?body [Suc c..<Suc ?nC] ?sb =
        Inr (s1\<lparr>digits := map (\<lambda>n. if n = c then digits s1 ! (c - 1)
                                   else Some (noiseDigit this gime n)) [1..<Suc ?nC]\<rparr>)"
      by simp
    then show ?thesis unfolding run stepc by (simp add: Inr)
  qed
qed


section \<open>The time of a digit\<close>

lemma fTime_digit_plus: "fTime (digit_plus a b) = fTime a"
  by (simp add: digit_plus_def)

lemma drainCPV_fTime:
  "drainCPV absID shift unread (digit, k) = (digit', k') \<Longrightarrow> fTime digit' = fTime digit"
  by (induction unread arbitrary: digit k) (auto simp: fTime_digit_plus split: if_splits)

lemma addInputsCPV_fTime:
  "addInputsCPV absID offs i sdigArray ks digit = (digit', ks') \<Longrightarrow> fTime digit' = fTime digit"
proof (induction absID offs i sdigArray ks digit arbitrary: ks' rule: addInputsCPV.induct)
  case (1 absID offs i sdigits rest k ks digit)
  then show ?case
    by (auto split: prod.splits dest: drainCPV_fTime)
qed auto

lemma cpvChannel_time:
  assumes "cpvChannel this gime sdigArray absID st = Inr st'"
    and "absID - 1 < length (digits st)"
  shows "map_option fTime (AtSlot (digits st') (absID - 1)) = Some TimeOfNoise"
  using assms
  by (auto simp: cpvChannel_def Let_def AtSlot_def newDigit_def
      split: if_splits sum.splits prod.splits dest!: addInputsCPV_fTime)

lemma merge_cpv_time:
  assumes run: "merge this gime sdigArray = Inr st"
    and p: "nEMC_of (PHOSGeometry gime) < p" "p \<le> nCPV_of (PHOSGeometry gime)"
  shows "map_option fTime (AtSlot (digits st) (p - 1)) = Some TimeOfNoise"
proof -
  let ?nE = "nEMC_of (PHOSGeometry gime)" and ?nC = "nCPV_of (PHOSGeometry gime)"
  let ?emc = "emcChannel this gime sdigArray" and ?cpv = "cpvChannel this gime sdigArray"
  from run obtain n0 s1 where
    emc: "channelLoop ?emc [1..<Suc ?nE] (initialState ?nC (length sdigArray) n0) = Inr s1"
    and cpv: "channelLoop ?cpv [Suc ?nE..<Suc ?nC] s1 = Inr st"
    by (rule merge_split)
  define Inv where "Inv s \<longleftrightarrow> length (digits s) = ?nC" for s :: MergeState
  define Q where "Q slot \<longleftrightarrow> map_option fTime slot = Some TimeOfNoise"
    for slot :: "AliPHOSDigit option"
  have s1: "Inv s1" using emc_loop_frame [OF emc] by (simp add: Inv_def initialState_def)
  have len: "length (digits st) = ?nC" using cpv_loop_frame [OF cpv] s1 by (simp add: Inv_def)
  have keepC: "\<And>a s s'. a \<noteq> p \<Longrightarrow> Inv s \<Longrightarrow> ?cpv a s = Inr s' \<Longrightarrow> Inv s'"
  proof -
    fix a s s' assume inv: "Inv s" and step: "?cpv a s = Inr s'"
    from cpvChannel_frame [OF step] inv show "Inv s'" by (simp add: Inv_def)
  qed
  have atC: "\<And>s s'. Inv s \<Longrightarrow> ?cpv p s = Inr s' \<Longrightarrow> Q (digits s' ! (p - 1))"
  proof -
    fix s s' assume inv: "Inv s" and step: "?cpv p s = Inr s'"
    then have slot: "p - 1 < length (digits s)" using p by (simp add: Inv_def)
    moreover have "length (digits s') = length (digits s)" using cpvChannel_frame [OF step] by simp
    ultimately show "Q (digits s' ! (p - 1))"
      using cpvChannel_time [OF step slot] by (simp add: Q_def AtSlot_def)
  qed
  have "Q (digits st ! (p - 1))"
  proof (rule channelLoop_slot [where body = ?cpv and c = p and Inv = Inv and Q = Q
        and cs = "[Suc ?nE..<Suc ?nC]" and st' = st])
    show "channelLoop ?cpv [Suc ?nE..<Suc ?nC] s1 = Inr st" by (rule cpv)
    show "p \<in> set [Suc ?nE..<Suc ?nC]" using p by (simp del: upt_Suc)
    show "distinct [Suc ?nE..<Suc ?nC]" by (simp del: upt_Suc)
    show "0 \<notin> set [Suc ?nE..<Suc ?nC]" by (simp del: upt_Suc)
  qed (fact cpvChannel_frame keepC atC s1)+
  then show ?thesis using len p by (simp add: Q_def AtSlot_def)
qed

section \<open>Offsets of the primaries\<close>













section \<open>Faults\<close>

lemma firstSig_empty: "[] \<in> set sdigArray \<Longrightarrow> firstSig sdigArray n = Inl NullPointer"
  by (induction sdigArray arbitrary: n) (auto simp: At_def split: option.splits)

lemma upt_from_1: "0 < n \<Longrightarrow> [Suc 0..<Suc n] = Suc 0 # [Suc (Suc 0)..<Suc n]"
  by (simp add: upt_conv_Cons del: upt_Suc)

text \<open>
  One input that starts with a record on channel \<open>c\<close> followed by a record on a lower
  channel: the body of channel \<open>c\<close> takes the first record and stops at the second.
\<close>

lemma channelBody_descent:
  assumes "fId r = int c" and "fId x < int c" and "0 < c" and "c \<le> nC"
    and "c \<le> nEMC_of (PHOSGeometry gime) \<longrightarrow> 1 \<le> fTime r"
  shows "\<exists>s1. channelBody this gime [r # x # rest] c (initialState nC 1 (int c)) = Inr s1 \<and>
           index s1 = [1] \<and>
           digits s1 ! (c - 1) =
             Some ((digit_plus (noiseDigit this gime c)
                      (ShiftPrimary (primaryoffset (fARD this) 0) r))
                   \<lparr>fTime := if c \<le> nEMC_of (PHOSGeometry gime) then 0 else TimeOfNoise\<rparr>)"
  using assms
  by (cases "c \<le> nEMC_of (PHOSGeometry gime)")
     (simp_all add: channelBody_def emcChannel_def cpvChannel_def newDigit_def noiseDigit_def
        TimeOfNoise_def TArrayF_assign_0 FrontEdgeTime_ctor digit_plus_def
        ShiftPrimary_def At_def initialState_def Let_def)

section \<open>The claims about the merge\<close>

text \<open>
  C1. The end-to-end scenario: the EMC channels 1 to 4 with threshold 0.01, the CPV
  channels 5 and 6 with threshold 0.09, noise 0, one input with the amplitude 1 on channel
  2 and the amplitude 1/2 on channel 6. The claim expects the digits of the channels 2
  and 6. The code never returns them, whatever the times and primaries of the two
  records: \<^verbatim>\<open>nextSig\<close> is 2 after line 210, and the rescan of lines 259 to 263
  only lowers it, so it stays 2 after channel 2 and the record on channel 6 is never
  merged; the digit of channel 6 is noise and falls under the CPV threshold. When the
  time \<open>t2\<close> of the record on channel 2 is at least 1, the list returned is the single
  digit of channel 2, at time 0: line 246 replaces the array \<^verbatim>\<open>times\<close> by
  \<open>(Int_t) t2\<close> zeros and \<^verbatim>\<open>FrontEdgeTime\<close> reads the first of them. When
  \<open>t2\<close> is below 1 the array is left without slots and \<^verbatim>\<open>FrontEdgeTime\<close>
  reads outside it.
\<close>

theorem scenario_loses_channel_6:
  "Digitize AliPHOSDigitizer_ctor (quiet geometry46)
     [[sdigit 2 1 t2 p2, sdigit 6 (1 / 2) t6 p6]] =
     (if 1 \<le> t2
      then Inr [\<lparr>fId = 2, fAmp = 1, fTime = 0, fPrimary = [(p2, 1)], fIndexInList = 0\<rparr>]
      else Inl OutOfBounds)"
  by (simp add: Digitize_def merge_def compactDigits_def run_defs AliPHOSDigitizer_ctor_def
      quiet_def geometry46_def sdigit_def nEMC_of_def nCPV_of_def upt_rec eval_nat_numeral)

text \<open>
  C2. Conservation fails for every channel above the first channel with signal. Whenever
  the merge completes and \<open>c0\<close> is the first value of \<^verbatim>\<open>nextSig\<close>, the digit of
  every channel \<open>n\<close> above \<open>c0\<close> has the amplitude of its noise sample alone, whatever
  the inputs hold for \<open>n\<close>: the rescan never raises \<^verbatim>\<open>nextSig\<close>, so no channel
  above \<open>c0\<close> is merged. With noise 0 and two inputs that each deposit 5 on channel 10,
  the first input having an earlier record on channel 4, the digit of channel 10 has the
  amplitude 0, not 10.
\<close>

theorem contributions_above_first_channel_lost:
  assumes "merge this gime sdigArray = Inr st"
    and "firstSig sdigArray 200000 = Inr c0"
    and "c0 < int n" and "0 < n" and "n \<le> nCPV_of (PHOSGeometry gime)"
  shows "map_option fAmp (AtSlot (digits st) (n - 1)) =
           Some (sDigitize gime (Gaus gime n
                   (if n \<le> nEMC_of (PHOSGeometry gime) then fPinNoise this else fCPVNoise this)))"
  unfolding merge_above_first [OF assms] by (simp add: newDigit_def)

theorem contributions_above_first_channel_lost_witness:
  "\<exists>st. merge AliPHOSDigitizer_ctor (quiet geometry12) conservationInputs = Inr st \<and>
     firstSig conservationInputs 200000 = Inr 4 \<and>
     map fAmp (recordsOn 10 conservationInputs) = [5, 5] \<and>
     map_option fAmp (AtSlot (digits st) 9) = Some 0"
proof -
  have "mergedDigit AliPHOSDigitizer_ctor (quiet geometry12) conservationInputs 10 =
     Inr (Some \<lparr>fId = 10, fAmp = 0, fTime = 1, fPrimary = [], fIndexInList = - 1\<rparr>)"
    by code_simp
  then obtain st where
    st: "merge AliPHOSDigitizer_ctor (quiet geometry12) conservationInputs = Inr st"
    by (auto simp: mergedDigit_def split: sum.splits)
  have first: "firstSig conservationInputs 200000 = Inr 4"
    by (simp add: conservationInputs_def sdigit_def At_def)
  have recs: "map fAmp (recordsOn 10 conservationInputs) = [5, 5]"
    by (simp add: recordsOn_def conservationInputs_def sdigit_def)
  have geo: "nCPV_of (PHOSGeometry (quiet geometry12)) = 12"
    "nEMC_of (PHOSGeometry (quiet geometry12)) = 12"
    by (simp_all add: quiet_def geometry12_def nEMC_of_def nCPV_of_def)
  from contributions_above_first_channel_lost [OF st first, of 10] geo
  have amp: "map_option fAmp (AtSlot (digits st) 9) = Some 0" by (simp add: quiet_def)
  show ?thesis by (intro exI [of _ st] conjI) (fact st first recs amp)+
qed

text \<open>
  C3, as amended. Let the merge complete. The digit of a channel \<open>n\<close> of either class
  without any record has the time of the noise (\<open>n\<close> other than 200000, the first value
  of \<^verbatim>\<open>nextSig\<close>). The digit of every CPV channel \<open>p\<close> has the time of the
  noise, with or without records: the CPV loop derives no time. Nothing is said about the
  time of an EMC channel with records.
\<close>

theorem merge_time:
  assumes "merge this gime sdigArray = Inr st"
  shows "(0 < n \<longrightarrow> n \<le> nCPV_of (PHOSGeometry gime) \<longrightarrow> n \<noteq> 200000 \<longrightarrow>
          recordsOn (int n) sdigArray = [] \<longrightarrow>
          map_option fTime (AtSlot (digits st) (n - 1)) = Some TimeOfNoise) \<and>
         (nEMC_of (PHOSGeometry gime) < p \<longrightarrow> p \<le> nCPV_of (PHOSGeometry gime) \<longrightarrow>
          map_option fTime (AtSlot (digits st) (p - 1)) = Some TimeOfNoise)"
proof (intro conjI impI)
  assume n: "0 < n" "n \<le> nCPV_of (PHOSGeometry gime)" "n \<noteq> 200000"
    "recordsOn (int n) sdigArray = []"
  show "map_option fTime (AtSlot (digits st) (n - 1)) = Some TimeOfNoise"
    unfolding merge_noise [OF assms n] by (simp add: newDigit_def)
next
  assume "nEMC_of (PHOSGeometry gime) < p" "p \<le> nCPV_of (PHOSGeometry gime)"
  with assms show "map_option fTime (AtSlot (digits st) (p - 1)) = Some TimeOfNoise"
    by (rule merge_cpv_time)
qed

theorem merge_time_witness:
  "\<exists>st. merge AliPHOSDigitizer_ctor (quiet geometry46) cpvInput = Inr st \<and>
     recordsOn 3 cpvInput = [] \<and> map fTime (recordsOn 5 cpvInput) = [1 / 2] \<and>
     map_option fTime (AtSlot (digits st) 2) = Some TimeOfNoise \<and>
     map_option fTime (AtSlot (digits st) 4) = Some TimeOfNoise"
proof -
  have "mergedDigit AliPHOSDigitizer_ctor (quiet geometry46) cpvInput 5 =
     Inr (Some \<lparr>fId = 5, fAmp = 1, fTime = 1, fPrimary = [(1, 1)], fIndexInList = - 1\<rparr>)"
    by code_simp
  then obtain st where st: "merge AliPHOSDigitizer_ctor (quiet geometry46) cpvInput = Inr st"
    by (auto simp: mergedDigit_def split: sum.splits)
  have geo: "nEMC_of (PHOSGeometry (quiet geometry46)) = 4"
    "nCPV_of (PHOSGeometry (quiet geometry46)) = 6"
    by (simp_all add: quiet_def geometry46_def nEMC_of_def nCPV_of_def)
  have recs: "map fTime (recordsOn 5 cpvInput) = [1 / 2]"
    and none: "recordsOn 3 cpvInput = []"
    by (simp_all add: recordsOn_def cpvInput_def sdigit_def)
  from merge_time [OF st, of 3 5] none
  show ?thesis unfolding geo using st recs by auto
qed

theorem time_counterexample:
  "mergedDigit AliPHOSDigitizer_ctor (quiet geometry46) cpvInput 5 =
     Inr (Some \<lparr>fId = 5, fAmp = 1, fTime = 1, fPrimary = [(1, 1)], fIndexInList = - 1\<rparr>) \<and>
   map fTime (recordsOn 5 cpvInput) = [1 / 2] \<and>
   mergedDigit AliPHOSDigitizer_ctor (quiet geometry46) emcTimeInput 1 =
     Inr (Some \<lparr>fId = 1, fAmp = 1, fTime = 0, fPrimary = [(1, 1)], fIndexInList = - 1\<rparr>) \<and>
   map fTime (recordsOn 1 emcTimeInput) = [7]"
  by code_simp




text \<open>
  C7, as amended. The code has no check of the order of an input and no error for it. Take
  a single input whose first record lies on a channel \<open>c\<close> (below 200000) and whose
  second record lies on a lower channel; when \<open>c\<close> is an EMC channel, let the time of
  the first record be at least 1. Then the run completes. The digit of \<open>c\<close> is its
  noise digit plus the first record, with the primaries of the record shifted by the
  offset of input 0; every other channel has its noise digit; the cursor stays on the
  second record; and the list returned is made of these digits by the thresholds, in
  channel order, with their indexes set.
\<close>

theorem unsorted_input_is_merged:
  assumes "fId r = int c" and "fId x < int c"
    and "0 < c" and "c \<le> nCPV_of (PHOSGeometry gime)" and "c < 200000"
    and "c \<le> nEMC_of (PHOSGeometry gime) \<longrightarrow> 1 \<le> fTime r"
  shows "\<exists>st d. merge this gime [r # x # rest] = Inr st \<and> index st = [1] \<and>
           d = (digit_plus (noiseDigit this gime c)
                  (ShiftPrimary (primaryoffset (fARD this) 0) r))
               \<lparr>fTime := if c \<le> nEMC_of (PHOSGeometry gime) then 0 else TimeOfNoise\<rparr> \<and>
           digits st =
             map (\<lambda>n. Some (if n = c then d else noiseDigit this gime n))
               [1..<Suc (nCPV_of (PHOSGeometry gime))] \<and>
           Digitize this gime [r # x # rest] =
             Inr (setIndexes 0
                    (filter (\<lambda>d. \<not> Calibrate gime (fAmp d) < classThreshold this gime (fId d))
                       (map (\<lambda>n. if n = c then d else noiseDigit this gime n)
                          [1..<Suc (nCPV_of (PHOSGeometry gime))])))"
proof -
  let ?nC = "nCPV_of (PHOSGeometry gime)"
  let ?sd = "[r # x # rest]"
  let ?d = "(digit_plus (noiseDigit this gime c) (ShiftPrimary (primaryoffset (fARD this) 0) r))
               \<lparr>fTime := if c \<le> nEMC_of (PHOSGeometry gime) then 0 else TimeOfNoise\<rparr>"
  let ?xs = "map (\<lambda>n. if n = c then ?d else noiseDigit this gime n) [1..<Suc ?nC]"
  have first: "firstSig ?sd 200000 = Inr (int c)"
    using assms(1,5) by (simp add: At_def)
  from channelBody_descent [OF assms(1,2,3,4,6), of this rest] obtain s1 where
    s1: "channelBody this gime ?sd c (initialState ?nC 1 (int c)) = Inr s1"
    and idx: "index s1 = [1]" and dc: "digits s1 ! (c - 1) = Some ?d"
    by blast
  let ?st = "s1\<lparr>digits := map Some ?xs\<rparr>"
  have "map (\<lambda>n. if n = c then digits s1 ! (c - 1) else Some (noiseDigit this gime n))
          [1..<Suc ?nC] = map Some ?xs"
    unfolding dc by (simp del: upt_Suc)
  then have st: "merge this gime ?sd = Inr ?st"
    using merge_first [OF first assms(3,4), of this] s1 by simp
  have ids: "map fId ?xs = map int [1..<Suc ?nC]"
    using assms(1) by (simp add: noiseDigit_def newDigit_def del: upt_Suc)
  have out: "Digitize this gime ?sd =
      Inr (setIndexes 0
             (filter (\<lambda>d. \<not> Calibrate gime (fAmp d) < classThreshold this gime (fId d)) ?xs))"
    unfolding Digitize_def st using compactDigits_channels [OF ids, of this] by simp
  have dig: "digits ?st = map (\<lambda>n. Some (if n = c then ?d else noiseDigit this gime n))
               [1..<Suc ?nC]"
    by (simp del: upt_Suc)
  have ix: "index ?st = [1]" using idx by simp
  show ?thesis
    by (intro exI [of _ ?st] exI [of _ ?d] conjI) (fact st ix refl dig out)+
qed

theorem unsorted_input_is_merged_witness:
  "map fId (concat unsortedInput) = [5, 3, 7] \<and>
   Digitize AliPHOSDigitizer_ctor (quiet geometry48) unsortedInput =
     Inr [\<lparr>fId = 5, fAmp = 1, fTime = 1, fPrimary = [(1, 1)], fIndexInList = 0\<rparr>] \<and>
   map fId (concat unsortedEMCInput) = [2, 1, 3] \<and>
   Digitize AliPHOSDigitizer_ctor (quiet geometry48) unsortedEMCInput =
     Inr [\<lparr>fId = 2, fAmp = 1, fTime = 0, fPrimary = [(1, 1)], fIndexInList = 0\<rparr>]"
proof -
  let ?dz = AliPHOSDigitizer_ctor and ?g = "quiet geometry48"
  let ?keep = "\<lambda>d. \<not> Calibrate ?g (fAmp d) < classThreshold ?dz ?g (fId d)"
  have geo: "nEMC_of (PHOSGeometry ?g) = 4" "nCPV_of (PHOSGeometry ?g) = 8"
    by (simp_all add: quiet_def geometry48_def nEMC_of_def nCPV_of_def)
  have ids: "map fId (concat unsortedInput) = [5, 3, 7]"
    "map fId (concat unsortedEMCInput) = [2, 1, 3]"
    by (simp_all add: unsortedInput_def unsortedEMCInput_def sdigit_def)
  have h5: "fId (sdigit 5 1 1 1) = int 5" "fId (sdigit 3 1 1 2) < int 5" "0 < (5::nat)"
    "5 \<le> nCPV_of (PHOSGeometry ?g)" "(5::nat) < 200000"
    "5 \<le> nEMC_of (PHOSGeometry ?g) \<longrightarrow> 1 \<le> fTime (sdigit 5 1 1 1)"
    by (simp_all add: sdigit_def geo)
  from unsorted_input_is_merged [OF h5, of ?dz "[sdigit 7 1 1 3]"] obtain d where
    d: "d = (digit_plus (noiseDigit ?dz ?g 5)
               (ShiftPrimary (primaryoffset (fARD ?dz) 0) (sdigit 5 1 1 1)))
            \<lparr>fTime := if 5 \<le> nEMC_of (PHOSGeometry ?g) then 0 else TimeOfNoise\<rparr>"
    and out: "Digitize ?dz ?g [[sdigit 5 1 1 1, sdigit 3 1 1 2, sdigit 7 1 1 3]] =
      Inr (setIndexes 0 (filter ?keep
             (map (\<lambda>n. if n = 5 then d else noiseDigit ?dz ?g n)
                [1..<Suc (nCPV_of (PHOSGeometry ?g))])))"
    by blast
  have "setIndexes 0 (filter ?keep
             (map (\<lambda>n. if n = 5
                then (digit_plus (noiseDigit ?dz ?g 5)
                        (ShiftPrimary (primaryoffset (fARD ?dz) 0) (sdigit 5 1 1 1)))
                     \<lparr>fTime := if 5 \<le> nEMC_of (PHOSGeometry ?g) then 0 else TimeOfNoise\<rparr>
                else noiseDigit ?dz ?g n)
                [1..<Suc (nCPV_of (PHOSGeometry ?g))])) =
        [\<lparr>fId = 5, fAmp = 1, fTime = 1, fPrimary = [(1, 1)], fIndexInList = 0\<rparr>]"
    by code_simp
  with out have cpv: "Digitize ?dz ?g unsortedInput =
     Inr [\<lparr>fId = 5, fAmp = 1, fTime = 1, fPrimary = [(1, 1)], fIndexInList = 0\<rparr>]"
    unfolding d unsortedInput_def by simp
  have h2: "fId (sdigit 2 1 1 1) = int 2" "fId (sdigit 1 1 1 2) < int 2" "0 < (2::nat)"
    "2 \<le> nCPV_of (PHOSGeometry ?g)" "(2::nat) < 200000"
    "2 \<le> nEMC_of (PHOSGeometry ?g) \<longrightarrow> 1 \<le> fTime (sdigit 2 1 1 1)"
    by (simp_all add: sdigit_def geo)
  from unsorted_input_is_merged [OF h2, of ?dz "[sdigit 3 1 1 3]"] obtain e where
    e: "e = (digit_plus (noiseDigit ?dz ?g 2)
               (ShiftPrimary (primaryoffset (fARD ?dz) 0) (sdigit 2 1 1 1)))
            \<lparr>fTime := if 2 \<le> nEMC_of (PHOSGeometry ?g) then 0 else TimeOfNoise\<rparr>"
    and out': "Digitize ?dz ?g [[sdigit 2 1 1 1, sdigit 1 1 1 2, sdigit 3 1 1 3]] =
      Inr (setIndexes 0 (filter ?keep
             (map (\<lambda>n. if n = 2 then e else noiseDigit ?dz ?g n)
                [1..<Suc (nCPV_of (PHOSGeometry ?g))])))"
    by blast
  have "setIndexes 0 (filter ?keep
             (map (\<lambda>n. if n = 2
                then (digit_plus (noiseDigit ?dz ?g 2)
                        (ShiftPrimary (primaryoffset (fARD ?dz) 0) (sdigit 2 1 1 1)))
                     \<lparr>fTime := if 2 \<le> nEMC_of (PHOSGeometry ?g) then 0 else TimeOfNoise\<rparr>
                else noiseDigit ?dz ?g n)
                [1..<Suc (nCPV_of (PHOSGeometry ?g))])) =
        [\<lparr>fId = 2, fAmp = 1, fTime = 0, fPrimary = [(1, 1)], fIndexInList = 0\<rparr>]"
    by code_simp
  with out' have emc: "Digitize ?dz ?g unsortedEMCInput =
     Inr [\<lparr>fId = 2, fAmp = 1, fTime = 0, fPrimary = [(1, 1)], fIndexInList = 0\<rparr>]"
    unfolding e unsortedEMCInput_def by simp
  from ids cpv emc show ?thesis by simp
qed

theorem unsorted_input_counterexample:
  "Digitize AliPHOSDigitizer_ctor (quiet geometry48) unsortedInput =
     Inr [\<lparr>fId = 5, fAmp = 1, fTime = 1, fPrimary = [(1, 1)], fIndexInList = 0\<rparr>]"
  by code_simp

section \<open>The claims about exhausted inputs and the scratch arrays\<close>

text \<open>
  C8. An input without records makes the run fail: the search of the first channel with
  signal (line 208) takes the identifier of the record at position 0 of every input, and
  \<^verbatim>\<open>At(0)\<close> of an input without records is the null pointer.
\<close>

theorem empty_input_null:
  assumes "[] \<in> set sdigArray"
  shows "Digitize this gime sdigArray = Inl NullPointer"
  using firstSig_empty [OF assms] by (simp add: Digitize_def merge_def)

theorem empty_input_null_witness:
  "[] \<in> set [[sdigit 2 1 1 1], []] \<and>
   Digitize AliPHOSDigitizer_ctor (quiet geometry46) [[sdigit 2 1 1 1], []] = Inl NullPointer"
  using empty_input_null [of "[[sdigit 2 1 1 1], []]" AliPHOSDigitizer_ctor "quiet geometry46"]
  by simp

text \<open>
  C9. An input whose records have all been taken makes the run fail. With at least one
  EMC channel and two inputs, the first with a single record on channel 1 and the second
  starting on a later channel, the record on channel 1 is merged. When its time is at
  least 1, the rescan (line 261) then takes the identifier of the record at the cursor of
  the first input, which is the null pointer. When its time is below 1, the run has failed
  before the rescan: \<^verbatim>\<open>FrontEdgeTime\<close> reads the array \<^verbatim>\<open>times\<close>,
  which line 246 has left without slots.
\<close>

theorem exhausted_input_null:
  assumes "0 < nEMC_of (PHOSGeometry gime)" and "fId r1 = 1" and "1 < fId r2"
  shows "Digitize this gime [[r1], r2 # rest] =
           (if 1 \<le> fTime r1 then Inl NullPointer else Inl OutOfBounds)"
  using assms
  by (simp add: Digitize_def merge_def upt_from_1 run_defs del: upt_Suc)

theorem exhausted_input_null_witness:
  "0 < nEMC_of (PHOSGeometry (quiet geometry46)) \<and> fId (sdigit 1 1 1 1) = 1 \<and>
   1 < fId (sdigit 2 1 1 1) \<and>
   Digitize AliPHOSDigitizer_ctor (quiet geometry46) [[sdigit 1 1 1 1], [sdigit 2 1 1 1]] =
     Inl NullPointer"
  using exhausted_input_null [of "quiet geometry46" "sdigit 1 1 1 1" "sdigit 2 1 1 1"
      AliPHOSDigitizer_ctor "[]"]
  by (simp add: quiet_def geometry46_def nEMC_of_def sdigit_def)

text \<open>
  C10. The two scratch arrays are reached through pointers to one array object each, and
  every record taken for a channel is written at offset \<^verbatim>\<open>contrib\<close> from the
  pointer. With at least one EMC channel and one input that starts with two records on
  channel 1, the second record is written at offset 1 (lines 245 and 246), behind the only
  array object that was allocated.
\<close>

theorem two_records_overflow:
  assumes "0 < nEMC_of (PHOSGeometry gime)" and "fId r = 1" and "fId r' = 1"
  shows "Digitize this gime [r # r' # rest] = Inl OutOfBounds"
  using assms
  by (simp add: Digitize_def merge_def upt_from_1 run_defs del: upt_Suc)

theorem two_records_overflow_witness:
  "0 < nEMC_of (PHOSGeometry (quiet geometry46)) \<and> fId (sdigit 1 1 1 1) = 1 \<and>
   fId (sdigit 1 2 1 2) = 1 \<and>
   Digitize AliPHOSDigitizer_ctor (quiet geometry46) [[sdigit 1 1 1 1, sdigit 1 2 1 2]] =
     Inl OutOfBounds"
  using two_records_overflow [of "quiet geometry46" "sdigit 1 1 1 1" "sdigit 1 2 1 2"
      AliPHOSDigitizer_ctor "[]"]
  by (simp add: quiet_def geometry46_def nEMC_of_def sdigit_def)

end
